theory Spec2Isabelle
  imports Main "HOL-Library.Word"
begin

unbundle bit_operations_syntax

section \<open>ESP32 ATEM tally system: bridge and tally light\<close>

text \<open>
  A shallow embedding of \<^verbatim>\<open>ESP32_ATEM_Bridge_BLE_v3.cpp\<close> (the bridge) and
  \<^verbatim>\<open>ESP32_Tally_Light_BLE_v2.cpp\<close> (the tally light). \<^verbatim>\<open>uint8_t\<close> is
  \<^typ>\<open>8 word\<close>, \<^verbatim>\<open>unsigned long\<close> (32 bits on the ESP32) is \<^typ>\<open>32 word\<close>,
  a \<^verbatim>\<open>const char*\<close> or an Arduino \<^verbatim>\<open>String\<close> is a \<^typ>\<open>string\<close>, a global
  array is a list, and every value the code reads from its environment
  (\<^verbatim>\<open>millis()\<close>, \<^verbatim>\<open>AtemSwitcher.isConnected()\<close>) is a parameter.
\<close>

subsection \<open>Bridge: tally state derivation\<close>

definition MAX_CAMERAS :: nat where
  "MAX_CAMERAS = 20"

text \<open>The shipped value of the compile-time switch; the functions below take it as a parameter.\<close>

definition STANDBY_AS_PREVIEW :: bool where
  "STANDBY_AS_PREVIEW = True"

text \<open>
  The search loop of \<^verbatim>\<open>getCurrentTallyState\<close>:
  \<^verbatim>\<open>for (int cam = 1; cam <= MAX_CAMERAS; cam++) if (currentTallyStates[cam] & 0x01) { ...; break; }\<close>
\<close>

function anyProgramActive :: "8 word list \<Rightarrow> nat \<Rightarrow> bool" where
  "anyProgramActive currentTallyStates cam =
     (if cam \<le> MAX_CAMERAS then
        (if currentTallyStates ! cam AND 0x01 \<noteq> 0 then True
         else anyProgramActive currentTallyStates (cam + 1))
      else False)"
  by pat_completeness auto
termination
  by (relation "measure (\<lambda>(cts, cam). Suc MAX_CAMERAS - cam)") auto

declare anyProgramActive.simps [simp del]

text \<open>
  \<^verbatim>\<open>const char* getCurrentTallyState(uint8_t cameraId)\<close>. The parameters are the macro
  \<^verbatim>\<open>STANDBY_AS_PREVIEW\<close>, the value of \<^verbatim>\<open>AtemSwitcher.isConnected()\<close> and the
  global array \<^verbatim>\<open>currentTallyStates[MAX_CAMERAS + 1]\<close>.
\<close>

definition getCurrentTallyState :: "bool \<Rightarrow> bool \<Rightarrow> 8 word list \<Rightarrow> 8 word \<Rightarrow> string" where
  "getCurrentTallyState standbyAsPreview atemConnected currentTallyStates cameraId =
     (if unat cameraId < 1 \<or> unat cameraId > MAX_CAMERAS then ''OFF''
      else if \<not> atemConnected then ''NO_ATEM''
      else
        (let state = currentTallyStates ! unat cameraId in
         if state AND 0x01 \<noteq> 0 then ''PROGRAM''
         else if state AND 0x02 \<noteq> 0 then ''PREVIEW''
         else
           (if standbyAsPreview then
              (if anyProgramActive currentTallyStates 1 then ''PREVIEW'' else ''OFF'')
            else ''OFF'')))"

subsection \<open>The wire message\<close>

text \<open>
  \<^verbatim>\<open>typedef struct { uint8_t cameraId; char state[12]; uint32_t timestamp; uint8_t bridgeId;
  uint8_t bridgeStatus; uint8_t checksum; } __attribute__((packed)) TallyMessage;\<close>
  The same declaration is in both programs. \<^verbatim>\<open>state\<close> holds the 12 bytes of the array.
\<close>

record TallyMessage =
  cameraId :: "8 word"
  state :: "8 word list"
  timestamp :: "32 word"
  bridgeId :: "8 word"
  bridgeStatus :: "8 word"
  checksum :: "8 word"

text \<open>The four bytes of a \<^verbatim>\<open>uint32_t\<close> in memory (the ESP32 is little-endian), and back.\<close>

definition le32 :: "32 word \<Rightarrow> 8 word list" where
  "le32 w = [ucast w, ucast (drop_bit 8 w), ucast (drop_bit 16 w), ucast (drop_bit 24 w)]"

definition le32_decode :: "8 word list \<Rightarrow> 32 word" where
  "le32_decode bs =
     ucast (bs ! 0) OR push_bit 8 (ucast (bs ! 1)) OR push_bit 16 (ucast (bs ! 2))
       OR push_bit 24 (ucast (bs ! 3))"

text \<open>
  The packed struct as the \<^verbatim>\<open>sizeof(TallyMessage)\<close> = 20 bytes that
  \<^verbatim>\<open>setValue((uint8_t*)&msg, sizeof(msg))\<close> sends, and the cast
  \<^verbatim>\<open>(TallyMessage*)pData\<close> of \<^verbatim>\<open>notifyCallback\<close> that reads them back.
\<close>

definition sizeof_TallyMessage :: nat where
  "sizeof_TallyMessage = 20"

definition msg_bytes :: "TallyMessage \<Rightarrow> 8 word list" where
  "msg_bytes msg =
     TallyMessage.cameraId msg # state msg @ le32 (timestamp msg)
       @ [bridgeId msg, bridgeStatus msg, checksum msg]"

definition msg_of_bytes :: "8 word list \<Rightarrow> TallyMessage" where
  "msg_of_bytes pData =
     \<lparr>TallyMessage.cameraId = pData ! 0,
      state = take 12 (drop 1 pData),
      timestamp = le32_decode (take 4 (drop 13 pData)),
      bridgeId = pData ! 17,
      bridgeStatus = pData ! 18,
      checksum = pData ! 19\<rparr>"

text \<open>
  The C string that starts at \<^verbatim>\<open>msg->state\<close>: the bytes up to the first NUL.
  \<^verbatim>\<open>strlen\<close> does not know the array's size; when the 12 bytes of \<^verbatim>\<open>state\<close> hold
  no NUL it runs on into the fields that follow in the packed struct. The bridge always
  writes \<^verbatim>\<open>state[11] = 0\<close> and the light zeroes \<^verbatim>\<open>checksum\<close> before it computes,
  so in both programs the scan ends inside the struct.
\<close>

definition c_str_state :: "TallyMessage \<Rightarrow> 8 word list" where
  "c_str_state msg = takeWhile (\<lambda>b. b \<noteq> 0) (tl (msg_bytes msg))"

text \<open>
  \<^verbatim>\<open>uint8_t calculateChecksum(TallyMessage* msg)\<close>, identical in both programs:
  \<^verbatim>\<open>checksum = 0; checksum ^= cameraId; checksum ^= bridgeId; checksum ^= bridgeStatus;
  for (i = 0; i < strlen(msg->state); i++) checksum ^= msg->state[i];\<close>
\<close>

definition calculateChecksum :: "TallyMessage \<Rightarrow> 8 word" where
  "calculateChecksum msg =
     fold (\<lambda>b checksum. checksum XOR b) (c_str_state msg)
       (0 XOR TallyMessage.cameraId msg XOR bridgeId msg XOR bridgeStatus msg)"

text \<open>\<^verbatim>\<open>bool verifyMessage(TallyMessage* msg)\<close> of the light; it restores the field it clears.\<close>

definition verifyMessage :: "TallyMessage \<Rightarrow> bool" where
  "verifyMessage msg =
     (let receivedChecksum = checksum msg;
          calculatedChecksum = calculateChecksum (msg\<lparr>checksum := 0\<rparr>)
      in receivedChecksum = calculatedChecksum)"

text \<open>
  \<^verbatim>\<open>strncpy(msg.state, state, sizeof(msg.state) - 1); msg.state[sizeof(msg.state) - 1] = '\0';\<close>
  The source string ends at its first NUL; \<^verbatim>\<open>strncpy\<close> copies at most 11 bytes of it
  and fills the rest of the 11 with NULs.
\<close>

definition strncpy_state :: "string \<Rightarrow> 8 word list" where
  "strncpy_state s =
     (let copied = map of_char (take 11 (takeWhile (\<lambda>c. c \<noteq> CHR 0x00) s))
      in copied @ replicate (11 - length copied) 0 @ [0])"

text \<open>
  The message that \<^verbatim>\<open>sendTallyToDevice\<close> builds on its stack (lines 307 to 321 of the
  bridge). \<^verbatim>\<open>checksum\<close> is not initialised when \<^verbatim>\<open>calculateChecksum\<close> runs; the
  function does not read it, since \<^verbatim>\<open>state[11]\<close> is NUL, and the model puts 0 there.
\<close>

definition buildTallyMessage :: "32 word \<Rightarrow> bool \<Rightarrow> 8 word \<Rightarrow> string \<Rightarrow> TallyMessage" where
  "buildTallyMessage now atemConnected camId st =
     (let msg = \<lparr>TallyMessage.cameraId = camId,
                 state = strncpy_state st,
                 timestamp = now,
                 bridgeId = 1,
                 bridgeStatus = (if atemConnected then 1 else 0),
                 checksum = 0\<rparr>
      in msg\<lparr>checksum := calculateChecksum msg\<rparr>)"

subsection \<open>Bridge: the device registry\<close>

definition MAX_TALLY_DEVICES :: nat where
  "MAX_TALLY_DEVICES = 4"

text \<open>
  \<^verbatim>\<open>typedef struct { String deviceName; uint8_t cameraId; unsigned long lastSeen; bool connected;
  bool registered; BLECharacteristic* characteristic; } TallyDevice;\<close>
  The pointer is a handle, \<open>None\<close> for \<^verbatim>\<open>nullptr\<close>.
\<close>

record TallyDevice =
  deviceName :: string
  cameraId :: "8 word"
  lastSeen :: "32 word"
  connected :: bool
  registered :: bool
  characteristic :: "nat option"

text \<open>The globals of the bridge that the modelled functions read or write.\<close>

record Bridge =
  tallyDevices :: "TallyDevice list"
  numConnectedDevices :: int
  deviceConnected :: bool
  currentTallyStates :: "8 word list"
  totalMessagesSent :: "32 word"
  lastStateChange :: "32 word"
  lastTallyBroadcast :: "32 word"

text \<open>The slot table as \<^verbatim>\<open>initializeBLE\<close> leaves it.\<close>

definition initial_tallyDevices :: "TallyDevice list" where
  "initial_tallyDevices =
     replicate MAX_TALLY_DEVICES
       \<lparr>deviceName = [], cameraId = 0, lastSeen = 0, connected = False, registered = False,
        characteristic = None\<rparr>"

text \<open>
  \<^verbatim>\<open>void sendTallyToDevice(int deviceIndex, uint8_t cameraId, const char* state)\<close>.
  The result is what the function hands to the radio: the slot whose characteristic is
  notified and the 20 bytes set on it, or nothing after an early return.
\<close>

definition sendTallyToDevice ::
  "32 word \<Rightarrow> bool \<Rightarrow> TallyDevice list \<Rightarrow> int \<Rightarrow> 8 word \<Rightarrow> string \<Rightarrow> (nat \<times> 8 word list) list" where
  "sendTallyToDevice now atemConnected devs deviceIndex camId st =
     (if deviceIndex < 0 \<or> deviceIndex \<ge> int MAX_TALLY_DEVICES then []
      else if \<not> TallyDevice.connected (devs ! nat deviceIndex)
              \<or> characteristic (devs ! nat deviceIndex) = None then []
      else [(nat deviceIndex, msg_bytes (buildTallyMessage now atemConnected camId st))])"

text \<open>
  The loop of \<^verbatim>\<open>broadcastTallyData\<close> from slot \<open>i\<close> on: the notifications and
  \<^verbatim>\<open>sentCount\<close>.
\<close>

function broadcastTallyData_slots ::
  "32 word \<Rightarrow> bool \<Rightarrow> TallyDevice list \<Rightarrow> 8 word \<Rightarrow> string \<Rightarrow> nat \<Rightarrow> (nat \<times> 8 word list) list \<times> nat" where
  "broadcastTallyData_slots now atemConnected devs camId st i =
     (if i < MAX_TALLY_DEVICES then
        (if TallyDevice.connected (devs ! i) \<and> TallyDevice.registered (devs ! i) then
           (case broadcastTallyData_slots now atemConnected devs camId st (i + 1) of
              (sent, sentCount) \<Rightarrow>
                (sendTallyToDevice now atemConnected devs (int i) camId st @ sent, sentCount + 1))
         else broadcastTallyData_slots now atemConnected devs camId st (i + 1))
      else ([], 0))"
  by pat_completeness auto
termination
  by (relation "measure (\<lambda>(now, atem, devs, camId, st, i). MAX_TALLY_DEVICES - i)") auto

declare broadcastTallyData_slots.simps [simp del]

text \<open>\<^verbatim>\<open>void broadcastTallyData(uint8_t cameraId, const char* state)\<close>.\<close>

definition broadcastTallyData ::
  "32 word \<Rightarrow> bool \<Rightarrow> 8 word \<Rightarrow> string \<Rightarrow> Bridge \<Rightarrow> (nat \<times> 8 word list) list \<times> Bridge" where
  "broadcastTallyData now atemConnected camId st b =
     (case broadcastTallyData_slots now atemConnected (tallyDevices b) camId st 0 of
        (sent, sentCount) \<Rightarrow>
          (sent,
           b\<lparr>totalMessagesSent :=
               (if sentCount > 0 then totalMessagesSent b + of_nat sentCount
                else totalMessagesSent b),
             lastStateChange := now,
             lastTallyBroadcast := now\<rparr>))"

text \<open>\<^verbatim>\<open>MyServerCallbacks::onConnect\<close> (restarting the advertising is left to the radio).\<close>

definition MyServerCallbacks_onConnect :: "Bridge \<Rightarrow> Bridge" where
  "MyServerCallbacks_onConnect b =
     b\<lparr>deviceConnected := True, numConnectedDevices := numConnectedDevices b + 1\<rparr>"

text \<open>
  The loop of \<^verbatim>\<open>MyServerCallbacks::onDisconnect\<close> from slot \<open>i\<close> on:
  \<^verbatim>\<open>if (tallyDevices[i].connected) { tallyDevices[i].connected = false; break; }\<close>
\<close>

function onDisconnect_slots :: "TallyDevice list \<Rightarrow> nat \<Rightarrow> TallyDevice list" where
  "onDisconnect_slots devs i =
     (if i < MAX_TALLY_DEVICES then
        (if TallyDevice.connected (devs ! i)
         then devs[i := (devs ! i)\<lparr>TallyDevice.connected := False\<rparr>]
         else onDisconnect_slots devs (i + 1))
      else devs)"
  by pat_completeness auto
termination
  by (relation "measure (\<lambda>(devs, i). MAX_TALLY_DEVICES - i)") auto

declare onDisconnect_slots.simps [simp del]

text \<open>
  \<^verbatim>\<open>void MyServerCallbacks::onDisconnect(BLEServer* pServer)\<close>. The callback is not told
  which client went away.
\<close>

definition MyServerCallbacks_onDisconnect :: "Bridge \<Rightarrow> Bridge" where
  "MyServerCallbacks_onDisconnect b =
     b\<lparr>numConnectedDevices :=
         (if numConnectedDevices b > 0 then numConnectedDevices b - 1
          else numConnectedDevices b),
       tallyDevices := onDisconnect_slots (tallyDevices b) 0\<rparr>"

subsection \<open>Bridge: the registration handler\<close>

text \<open>
  The operations of the Arduino \<^verbatim>\<open>String\<close> class (\<^verbatim>\<open>WString.cpp\<close> of the ESP32
  core) that \<^verbatim>\<open>onWrite\<close> calls, on the characters of the string. \<^verbatim>\<open>isspace\<close> is
  the C locale's.
\<close>

definition isspace :: "char \<Rightarrow> bool" where
  "isspace c \<longleftrightarrow> c \<in> set [CHR 0x20, CHR 0x09, CHR 0x0A, CHR 0x0B, CHR 0x0C, CHR 0x0D]"

definition isdigit :: "char \<Rightarrow> bool" where
  "isdigit c \<longleftrightarrow> 48 \<le> (of_char c :: nat) \<and> (of_char c :: nat) \<le> 57"

text \<open>\<^verbatim>\<open>void String::trim()\<close>: leading and trailing white space is removed.\<close>

definition String_trim :: "string \<Rightarrow> string" where
  "String_trim s = rev (dropWhile isspace (rev (dropWhile isspace s)))"

text \<open>\<^verbatim>\<open>bool String::startsWith(const String &prefix)\<close>.\<close>

definition String_startsWith :: "string \<Rightarrow> string \<Rightarrow> bool" where
  "String_startsWith s prefix \<longleftrightarrow> length prefix \<le> length s \<and> take (length prefix) s = prefix"

text \<open>
  \<^verbatim>\<open>int String::indexOf(char ch, unsigned int fromIndex)\<close>: \<open>-1\<close> when \<open>fromIndex\<close> is
  not below the length or the character does not occur from there on.
\<close>

definition String_indexOf :: "string \<Rightarrow> char \<Rightarrow> nat \<Rightarrow> int" where
  "String_indexOf s ch fromIndex =
     (if fromIndex \<ge> length s then - 1
      else if ch \<in> set (drop fromIndex s)
        then int (fromIndex + length (takeWhile (\<lambda>c. c \<noteq> ch) (drop fromIndex s)))
        else - 1)"

text \<open>
  \<^verbatim>\<open>String String::substring(unsigned int left, unsigned int right)\<close>: the bounds are
  swapped when out of order, the result is empty when \<open>left\<close> is not below the length,
  and \<open>right\<close> is cut at the length. \<^verbatim>\<open>substring(left)\<close> is
  \<^verbatim>\<open>substring(left, length)\<close>.
\<close>

definition String_substring :: "string \<Rightarrow> nat \<Rightarrow> nat \<Rightarrow> string" where
  "String_substring s left right =
     (let l = (if left > right then right else left);
          r = (if left > right then left else right)
      in if l \<ge> length s then [] else take (min r (length s) - l) (drop l s))"

text \<open>
  \<^verbatim>\<open>long String::toInt()\<close> is \<^verbatim>\<open>atol\<close> of the buffer: white space, an optional
  sign, then the leading decimal digits (0 when there are none); newlib's \<^verbatim>\<open>strtol\<close>
  clamps to the range of the 32-bit \<^verbatim>\<open>long\<close>.
\<close>

fun atol_digits :: "string \<Rightarrow> int \<Rightarrow> int" where
  "atol_digits [] acc = acc"
| "atol_digits (c # cs) acc =
     (if isdigit c then atol_digits cs (acc * 10 + (of_char c - 48)) else acc)"

definition String_toInt :: "string \<Rightarrow> int" where
  "String_toInt s =
     (let t = dropWhile isspace s;
          v = (case t of
                 [] \<Rightarrow> 0
               | c # cs \<Rightarrow>
                   if c = CHR ''-'' then - atol_digits cs 0
                   else if c = CHR ''+'' then atol_digits cs 0
                   else atol_digits t 0)
      in max (- (2 ^ 31)) (min (2 ^ 31 - 1) v))"

text \<open>
  The slot search of \<^verbatim>\<open>onWrite\<close> from slot \<open>i\<close> on (lines 219 to 242): the first slot
  that is not registered or that holds \<open>name\<close> is written, the current state of the
  camera is sent to it, and the loop ends.
\<close>

function onWrite_slots ::
  "32 word \<Rightarrow> bool \<Rightarrow> bool \<Rightarrow> nat \<Rightarrow> 8 word \<Rightarrow> string \<Rightarrow> Bridge \<Rightarrow> nat
     \<Rightarrow> (nat \<times> 8 word list) list \<times> Bridge" where
  "onWrite_slots now atemConnected standbyAsPreview pCharacteristic camId name b i =
     (if i < MAX_TALLY_DEVICES then
        (if \<not> TallyDevice.registered (tallyDevices b ! i)
            \<or> deviceName (tallyDevices b ! i) = name then
           (let dev = (tallyDevices b ! i)
                        \<lparr>deviceName := name,
                         TallyDevice.cameraId := camId,
                         lastSeen := now,
                         TallyDevice.connected := True,
                         characteristic := Some pCharacteristic\<rparr>;
                dev' = (if \<not> TallyDevice.registered dev
                        then dev\<lparr>TallyDevice.registered := True\<rparr> else dev);
                b' = b\<lparr>tallyDevices := (tallyDevices b)[i := dev']\<rparr>
            in (sendTallyToDevice now atemConnected (tallyDevices b') (int i) camId
                  (getCurrentTallyState standbyAsPreview atemConnected (currentTallyStates b') camId),
                b'))
         else onWrite_slots now atemConnected standbyAsPreview pCharacteristic camId name b (i + 1))
      else ([], b))"
  by pat_completeness auto
termination
  by (relation "measure (\<lambda>(now, atem, standby, p, camId, name, b, i). MAX_TALLY_DEVICES - i)") auto

declare onWrite_slots.simps [simp del]

text \<open>
  \<^verbatim>\<open>void MyCharacteristicCallbacks::onWrite(BLECharacteristic* pCharacteristic)\<close>;
  \<open>rxValue\<close> is the value written to the characteristic.
  \<^verbatim>\<open>String(rxValue.c_str())\<close> ends at the first NUL of the value.
\<close>

definition MyCharacteristicCallbacks_onWrite ::
  "32 word \<Rightarrow> bool \<Rightarrow> bool \<Rightarrow> nat \<Rightarrow> string \<Rightarrow> Bridge \<Rightarrow> (nat \<times> 8 word list) list \<times> Bridge" where
  "MyCharacteristicCallbacks_onWrite now atemConnected standbyAsPreview pCharacteristic rxValue b =
     (if length rxValue > 0 then
        (let message = String_trim (takeWhile (\<lambda>c. c \<noteq> CHR 0x00) rxValue) in
         if String_startsWith message ''TALLY_REG:'' then
           (let firstColon = String_indexOf message CHR '':'' 10;
                secondColon = String_indexOf message CHR '':'' (nat (firstColon + 1))
            in if firstColon > 0 \<and> secondColon > 0 then
                 (let camId = (word_of_int (String_toInt
                                 (String_substring message 10 (nat firstColon))) :: 8 word);
                      name = String_substring message (nat (secondColon + 1)) (length message)
                  in onWrite_slots now atemConnected standbyAsPreview pCharacteristic camId name b 0)
               else ([], b))
         else ([], b))
      else ([], b))"

subsection \<open>Tally light: state and LED\<close>

definition CAMERA_ID :: nat where
  "CAMERA_ID = 1"

definition DEVICE_NAME :: string where
  "DEVICE_NAME = ''Tally_CAM_1''"

definition MAX_RECONNECT_ATTEMPTS :: int where
  "MAX_RECONNECT_ATTEMPTS = 5"

definition RECONNECT_INTERVAL :: "32 word" where
  "RECONNECT_INTERVAL = 15000"

definition REGISTRATION_RETRY_INTERVAL :: "32 word" where
  "REGISTRATION_RETRY_INTERVAL = 5000"

definition MESSAGE_TIMEOUT :: "32 word" where
  "MESSAGE_TIMEOUT = 60000"

definition HEARTBEAT_TIMEOUT :: "32 word" where
  "HEARTBEAT_TIMEOUT = 15000"

definition HEARTBEAT_LED_INTERVAL :: "32 word" where
  "HEARTBEAT_LED_INTERVAL = 2000"

definition LED_BRIGHTNESS :: nat where
  "LED_BRIGHTNESS = 128"

datatype ConnectionState =
  STATE_DISCONNECTED | STATE_SCANNING | STATE_CONNECTING | STATE_CONNECTED | STATE_REGISTERED
  | STATE_ERROR

text \<open>
  The globals of the light, the \<^verbatim>\<open>static\<close> locals of \<^verbatim>\<open>updateTallyLED\<close> (one blink
  state and time per branch) and the duty cycles last written to the three LED pins.
  \<open>hasRemoteCharacteristic\<close> is \<^verbatim>\<open>pRemoteCharacteristic != nullptr\<close>.
\<close>

record Light =
  hasRemoteCharacteristic :: bool
  doConnect :: bool
  connected :: bool
  doScan :: bool
  currentState :: ConnectionState
  currentTallyState :: string
  bridgeHasATEM :: bool
  lastMessageReceived :: "32 word"
  lastHeartbeatReceived :: "32 word"
  lastConnectionAttempt :: "32 word"
  lastRegistrationAttempt :: "32 word"
  reconnectAttempts :: int
  registered :: bool
  heartbeatLedState :: bool
  lastHeartbeatLed :: "32 word"
  totalMessagesReceived :: "32 word"
  totalOnlineTime :: "32 word"
  lastOnlineStart :: "32 word"
  lostBlinkState :: bool
  lostLastBlink :: "32 word"
  pulseState :: bool
  lastPulse :: "32 word"
  connectingBlinkState :: bool
  connectingLastBlink :: "32 word"
  scanningBlinkState :: bool
  scanningLastBlink :: "32 word"
  led :: "nat \<times> nat \<times> nat"

text \<open>What the light asks of its BLE client: \<^verbatim>\<open>pClient->disconnect()\<close> and
  \<^verbatim>\<open>pRemoteCharacteristic->writeValue(...)\<close>.\<close>

datatype ClientRequest = Disconnect | WriteValue string

definition setLEDColor :: "nat \<Rightarrow> nat \<Rightarrow> nat \<Rightarrow> Light \<Rightarrow> Light" where
  "setLEDColor red green blue s =
     s\<lparr>led := ((red * LED_BRIGHTNESS) div 255, (green * LED_BRIGHTNESS) div 255,
               (blue * LED_BRIGHTNESS) div 255)\<rparr>"

definition setLEDOff :: "Light \<Rightarrow> Light" where
  "setLEDOff s = setLEDColor 0 0 0 s"

text \<open>\<^verbatim>\<open>void updateTallyLED()\<close>; \<open>now\<close> is \<^verbatim>\<open>millis()\<close>.\<close>

definition updateTallyLED :: "32 word \<Rightarrow> Light \<Rightarrow> Light" where
  "updateTallyLED now s =
     (if currentState s = STATE_REGISTERED \<and> now - lastHeartbeatReceived s > HEARTBEAT_TIMEOUT then
        (if now - lostLastBlink s > 500 then
           (let s1 = s\<lparr>lostBlinkState := \<not> lostBlinkState s, lostLastBlink := now\<rparr>
            in if lostBlinkState s1 then setLEDColor 255 0 255 s1 else setLEDOff s1)
         else s)
      else if currentState s = STATE_REGISTERED then
        (if currentTallyState s = ''PROGRAM'' then setLEDColor 255 0 0 s
         else if currentTallyState s = ''PREVIEW'' then setLEDColor 0 255 0 s
         else if currentTallyState s = ''STANDBY'' then setLEDColor 0 255 0 s
         else if currentTallyState s = ''NO_ATEM'' \<or> \<not> bridgeHasATEM s then
           (if now - lastPulse s > 1500 then
              (let s1 = s\<lparr>pulseState := \<not> pulseState s, lastPulse := now\<rparr>
               in if pulseState s1 then setLEDColor 255 255 0 s1 else setLEDColor 64 64 0 s1)
            else s)
         else (if heartbeatLedState s then setLEDColor 0 0 64 s else setLEDOff s))
      else if currentState s = STATE_CONNECTED then setLEDColor 0 0 255 s
      else if currentState s = STATE_CONNECTING then
        (if now - connectingLastBlink s > 200 then
           (let s1 = s\<lparr>connectingBlinkState := \<not> connectingBlinkState s,
                        connectingLastBlink := now\<rparr>
            in if connectingBlinkState s1 then setLEDColor 255 128 0 s1 else setLEDOff s1)
         else s)
      else if currentState s = STATE_SCANNING then
        (if now - scanningLastBlink s > 1000 then
           (let s1 = s\<lparr>scanningBlinkState := \<not> scanningBlinkState s,
                        scanningLastBlink := now\<rparr>
            in if scanningBlinkState s1 then setLEDColor 255 128 0 s1 else setLEDOff s1)
         else s)
      else if currentState s = STATE_ERROR then setLEDColor 128 0 128 s
      else setLEDOff s)"

text \<open>
  \<^verbatim>\<open>void flashLED(red, green, blue, int duration = 100)\<close>: the colour, \<^verbatim>\<open>delay(duration)\<close>,
  then \<^verbatim>\<open>updateTallyLED()\<close>, which reads the clock after the delay.
\<close>

definition flashLED :: "nat \<Rightarrow> nat \<Rightarrow> nat \<Rightarrow> 32 word \<Rightarrow> 32 word \<Rightarrow> Light \<Rightarrow> Light" where
  "flashLED red green blue duration now s =
     updateTallyLED (now + duration) (setLEDColor red green blue s)"

text \<open>\<^verbatim>\<open>void handleHeartbeatLED()\<close>.\<close>

definition handleHeartbeatLED :: "32 word \<Rightarrow> Light \<Rightarrow> Light" where
  "handleHeartbeatLED now s =
     (if currentState s = STATE_REGISTERED \<and> currentTallyState s = ''OFF'' \<and> bridgeHasATEM s then
        (if now - lastHeartbeatLed s > HEARTBEAT_LED_INTERVAL then
           updateTallyLED now
             (s\<lparr>heartbeatLedState := \<not> heartbeatLedState s, lastHeartbeatLed := now\<rparr>)
         else s)
      else s)"

subsection \<open>Tally light: messages and connection management\<close>

text \<open>\<^verbatim>\<open>String(msg->state)\<close>: the characters of the C string in the message.\<close>

definition String_of_state :: "TallyMessage \<Rightarrow> string" where
  "String_of_state msg = map (\<lambda>b. char_of (unat b)) (c_str_state msg)"

text \<open>\<^verbatim>\<open>void processTallyMessage(TallyMessage* msg)\<close>.\<close>

definition processTallyMessage :: "32 word \<Rightarrow> TallyMessage \<Rightarrow> Light \<Rightarrow> Light" where
  "processTallyMessage now msg s =
     (if \<not> verifyMessage msg then flashLED 128 0 128 100 now s
      else
        (let s1 = s\<lparr>bridgeHasATEM := (bridgeStatus msg = 1)\<rparr> in
         if TallyMessage.cameraId msg = 0 then
           updateTallyLED now (s1\<lparr>lastHeartbeatReceived := now, lastMessageReceived := now\<rparr>)
         else if unat (TallyMessage.cameraId msg) \<noteq> CAMERA_ID then s1
         else
           (let s2 = s1\<lparr>totalMessagesReceived := totalMessagesReceived s1 + 1,
                        lastMessageReceived := now,
                        lastHeartbeatReceived := now\<rparr>;
                s3 = flashLED 255 255 255 50 now s2;
                newState = String_of_state msg
            in if newState \<noteq> currentTallyState s3
               then updateTallyLED (now + 50) (s3\<lparr>currentTallyState := newState\<rparr>)
               else s3)))"

text \<open>\<^verbatim>\<open>notifyCallback\<close>: a block of any other size is dropped.\<close>

definition notifyCallback :: "32 word \<Rightarrow> 8 word list \<Rightarrow> Light \<Rightarrow> Light" where
  "notifyCallback now pData s =
     (if length pData = sizeof_TallyMessage then processTallyMessage now (msg_of_bytes pData) s
      else s)"

text \<open>\<^verbatim>\<open>MyClientCallback::onConnect\<close> and \<^verbatim>\<open>MyClientCallback::onDisconnect\<close>.\<close>

definition MyClientCallback_onConnect :: "32 word \<Rightarrow> Light \<Rightarrow> Light" where
  "MyClientCallback_onConnect now s =
     updateTallyLED now
       (s\<lparr>Light.connected := True, currentState := STATE_CONNECTED, reconnectAttempts := 0,
          lastOnlineStart := now\<rparr>)"

definition MyClientCallback_onDisconnect :: "32 word \<Rightarrow> Light \<Rightarrow> Light" where
  "MyClientCallback_onDisconnect now s =
     (let s1 = s\<lparr>Light.connected := False, Light.registered := False,
                  currentState := STATE_DISCONNECTED\<rparr>;
          s2 = (if lastOnlineStart s1 > 0
                then s1\<lparr>totalOnlineTime := totalOnlineTime s1 + (now - lastOnlineStart s1),
                        lastOnlineStart := 0\<rparr>
                else s1);
          s3 = updateTallyLED now s2
      in s3\<lparr>doScan := True, lastConnectionAttempt := now\<rparr>)"

text \<open>\<^verbatim>\<open>String(CAMERA_ID)\<close>: the decimal digits of the number.\<close>

function String_of_nat :: "nat \<Rightarrow> string" where
  "String_of_nat n =
     (if n < 10 then [char_of (48 + n)]
      else String_of_nat (n div 10) @ [char_of (48 + n mod 10)])"
  by pat_completeness auto
termination
  by (relation "measure (\<lambda>n. n)") auto

declare String_of_nat.simps [simp del]

text \<open>
  \<^verbatim>\<open>void registerWithBridge()\<close>. The message is written, the function waits
  \<^verbatim>\<open>delay(1000)\<close> and then marks the light registered without an answer from the bridge.
  The third component of the result is the clock when the function returns: \<open>now\<close> after
  the early return, a second later after the delay.
\<close>

definition regMessage :: string where
  "regMessage = ''TALLY_REG:'' @ String_of_nat CAMERA_ID @ '':'' @ DEVICE_NAME"

definition registerWithBridge ::
  "32 word \<Rightarrow> Light \<Rightarrow> ClientRequest list \<times> Light \<times> 32 word" where
  "registerWithBridge now s =
     (if \<not> Light.connected s \<or> \<not> hasRemoteCharacteristic s then ([], s, now)
      else
        ([WriteValue regMessage],
         updateTallyLED (now + 1000)
           (s\<lparr>lastRegistrationAttempt := now, Light.registered := True,
              currentState := STATE_REGISTERED\<rparr>),
         now + 1000))"

text \<open>
  \<^verbatim>\<open>void handleConnection()\<close>; \<open>currentTime\<close> is the \<^verbatim>\<open>millis()\<close> it reads first. The
  result is what it asks of the BLE client, the new state and the clock when it returns.
\<close>

definition handleConnection ::
  "32 word \<Rightarrow> Light \<Rightarrow> ClientRequest list \<times> Light \<times> 32 word" where
  "handleConnection currentTime s =
     (if Light.connected s \<and> currentTime - lastMessageReceived s > MESSAGE_TIMEOUT
      then ([Disconnect], s, currentTime)
      else
        (let s1 =
           (if \<not> Light.connected s \<and> \<not> doConnect s \<and> \<not> doScan s then
              (if currentTime - lastConnectionAttempt s > RECONNECT_INTERVAL then
                 (if reconnectAttempts s < MAX_RECONNECT_ATTEMPTS then
                    s\<lparr>doScan := True, reconnectAttempts := reconnectAttempts s + 1,
                      lastConnectionAttempt := currentTime\<rparr>
                  else
                    (if currentTime - lastConnectionAttempt s > RECONNECT_INTERVAL * 3
                     then s\<lparr>reconnectAttempts := 0\<rparr> else s))
               else s)
            else s)
         in if Light.connected s1 \<and> \<not> Light.registered s1 then
              (if currentTime - lastRegistrationAttempt s1 > REGISTRATION_RETRY_INTERVAL
               then registerWithBridge currentTime s1 else ([], s1, currentTime))
            else ([], s1, currentTime)))"

text \<open>
  One pass of \<^verbatim>\<open>loop()\<close> of the light that starts at time \<open>now\<close>. The two blocks at
  its head, \<^verbatim>\<open>connectToServer()\<close> under \<^verbatim>\<open>doConnect\<close> and \<^verbatim>\<open>startBLEScan()\<close> under
  \<^verbatim>\<open>doScan\<close>, run the BLE stack and are outside this model: the pass is \<open>None\<close> when
  either flag is set. Otherwise it is \<^verbatim>\<open>handleConnection()\<close>, then \<^verbatim>\<open>updateTallyLED()\<close>
  and \<^verbatim>\<open>handleHeartbeatLED()\<close>, which read the clock as \<^verbatim>\<open>handleConnection\<close> left it
  (a second later when it registered); no serial command is pending.
\<close>

definition loop :: "32 word \<Rightarrow> Light \<Rightarrow> (ClientRequest list \<times> Light) option" where
  "loop now s =
     (if doConnect s \<or> doScan s then None
      else
        (case handleConnection now s of
           (requests, s1, clock) \<Rightarrow>
             Some (requests, handleHeartbeatLED clock (updateTallyLED clock s1))))"

subsection \<open>Example states\<close>

text \<open>
  Slots, a bridge and a light for the worked examples: a registered slot with a name, a
  camera and a link flag (its characteristic is the handle 7), a slot never claimed, and
  a bridge around a slot table with no camera on air.
\<close>

definition claimed_slot :: "string \<Rightarrow> 8 word \<Rightarrow> bool \<Rightarrow> TallyDevice" where
  "claimed_slot name camId up =
     \<lparr>deviceName = name, cameraId = camId, lastSeen = 0, connected = up, registered = True,
      characteristic = Some 7\<rparr>"

definition free_slot :: TallyDevice where
  "free_slot =
     \<lparr>deviceName = [], cameraId = 0, lastSeen = 0, connected = False, registered = False,
      characteristic = None\<rparr>"

definition bridge_of :: "TallyDevice list \<Rightarrow> Bridge" where
  "bridge_of devs =
     \<lparr>tallyDevices = devs, numConnectedDevices = 2, deviceConnected = True,
      currentTallyStates = replicate (MAX_CAMERAS + 1) 0, totalMessagesSent = 0,
      lastStateChange = 0, lastTallyBroadcast = 0\<rparr>"

text \<open>
  A full registry of four distinct names, the last of them \<^verbatim>\<open>"cam"\<close>, and the bridge
  around it.
\<close>

definition full_registry :: "TallyDevice list" where
  "full_registry =
     [claimed_slot ''Tally_A'' 1 True, claimed_slot ''Tally_B'' 2 False,
      claimed_slot ''Tally_C'' 3 True, claimed_slot ''cam'' 4 True]"

text \<open>A light that registered at time 0 and has heard nothing since.\<close>

definition registered_light :: Light where
  "registered_light =
     \<lparr>hasRemoteCharacteristic = True, doConnect = False, connected = True, doScan = False,
      currentState = STATE_REGISTERED, currentTallyState = ''OFF'', bridgeHasATEM = True,
      lastMessageReceived = 0, lastHeartbeatReceived = 0, lastConnectionAttempt = 0,
      lastRegistrationAttempt = 0, reconnectAttempts = 0, registered = True,
      heartbeatLedState = False, lastHeartbeatLed = 0, totalMessagesReceived = 0,
      totalOnlineTime = 0, lastOnlineStart = 0, lostBlinkState = False, lostLastBlink = 0,
      pulseState = False, lastPulse = 0, connectingBlinkState = False, connectingLastBlink = 0,
      scanningBlinkState = False, scanningLastBlink = 0, led = (0, 0, 0)\<rparr>"

section \<open>Properties\<close>

subsection \<open>The tally state derivation\<close>

lemma anyProgramActive_iff:
  "anyProgramActive cts cam \<longleftrightarrow> (\<exists>k. cam \<le> k \<and> k \<le> MAX_CAMERAS \<and> cts ! k AND 0x01 \<noteq> 0)"
proof (induction cts cam rule: anyProgramActive.induct)
  case (1 cts cam)
  show ?case
  proof (cases "cam \<le> MAX_CAMERAS")
    case False
    then show ?thesis by (simp add: anyProgramActive.simps [of cts cam])
  next
    case inrange: True
    show ?thesis
    proof (cases "cts ! cam AND 0x01 \<noteq> 0")
      case True
      with inrange show ?thesis
        by (auto simp add: anyProgramActive.simps [of cts cam])
    next
      case False
      have "(\<exists>k. cam \<le> k \<and> k \<le> MAX_CAMERAS \<and> cts ! k AND 0x01 \<noteq> 0) \<longleftrightarrow>
            (\<exists>k. cam + 1 \<le> k \<and> k \<le> MAX_CAMERAS \<and> cts ! k AND 0x01 \<noteq> 0)"
        using False by (metis Suc_eq_plus1 Suc_leD Suc_leI le_neq_implies_less)
      with inrange False "1.IH" show ?thesis
        by (simp add: anyProgramActive.simps [of cts cam])
    qed
  qed
qed

text \<open>
  C7: when the bridge has no session with the switcher, the derived state of every camera
  id in 1..\<open>MAX_CAMERAS\<close> is \<^verbatim>\<open>"NO_ATEM"\<close> (the bridge's name for the state that the
  specification calls NO_SOURCE), whatever the camera's tally flags and the standby switch.
\<close>

theorem getCurrentTallyState_no_atem:
  assumes "1 \<le> unat c" and "unat c \<le> MAX_CAMERAS"
  shows "getCurrentTallyState standbyAsPreview False cts c = ''NO_ATEM''"
  using assms by (simp add: getCurrentTallyState_def)

theorem getCurrentTallyState_no_atem_witness:
  "1 \<le> unat (5 :: 8 word) \<and> unat (5 :: 8 word) \<le> MAX_CAMERAS
   \<and> getCurrentTallyState True False (replicate 21 3) 5 = ''NO_ATEM''"
  using getCurrentTallyState_no_atem [of 5 True "replicate 21 3"]
  by (simp add: MAX_CAMERAS_def)

text \<open>
  C10: for a camera id outside 1..\<open>MAX_CAMERAS\<close> (0, or above \<open>MAX_CAMERAS\<close>) the derived
  state is \<^verbatim>\<open>"OFF"\<close>, whether or not the switcher is connected and whatever the flags:
  the range check comes first, so such an id never yields \<^verbatim>\<open>"NO_ATEM"\<close>.
\<close>

theorem getCurrentTallyState_out_of_range:
  assumes "c = 0 \<or> unat c > MAX_CAMERAS"
  shows "getCurrentTallyState standbyAsPreview atemConnected cts c = ''OFF''"
  using assms by (auto simp add: getCurrentTallyState_def)

theorem getCurrentTallyState_out_of_range_witness:
  "((0 :: 8 word) = 0 \<or> unat (0 :: 8 word) > MAX_CAMERAS)
   \<and> getCurrentTallyState True False (replicate 21 1) 0 = ''OFF''
   \<and> ((21 :: 8 word) = 0 \<or> unat (21 :: 8 word) > MAX_CAMERAS)
   \<and> getCurrentTallyState True False (replicate 21 1) 21 = ''OFF''"
  using getCurrentTallyState_out_of_range [of 0 True False "replicate 21 1"]
    getCurrentTallyState_out_of_range [of 21 True False "replicate 21 1"]
  by (simp add: MAX_CAMERAS_def)

text \<open>
  C2, as stated, fails: with the switcher connected, the standby switch on and camera 1
  live, the idle camera 2 derives \<^verbatim>\<open>"PREVIEW"\<close>, not a state of its own named STANDBY.
\<close>

theorem standby_counterexample:
  "[0, 1, 0, 0, 0, 0, 0, 0, 0, 0, 0, 0, 0, 0, 0, 0, 0, 0, 0, 0, 0 :: 8 word] ! 2 AND 0x01 = 0
   \<and> [0, 1, 0, 0, 0, 0, 0, 0, 0, 0, 0, 0, 0, 0, 0, 0, 0, 0, 0, 0, 0 :: 8 word] ! 2 AND 0x02 = 0
   \<and> [0, 1, 0, 0, 0, 0, 0, 0, 0, 0, 0, 0, 0, 0, 0, 0, 0, 0, 0, 0, 0 :: 8 word] ! 1 AND 0x01 \<noteq> 0
   \<and> getCurrentTallyState True True
        [0, 1, 0, 0, 0, 0, 0, 0, 0, 0, 0, 0, 0, 0, 0, 0, 0, 0, 0, 0, 0] 2 = ''PREVIEW''
   \<and> getCurrentTallyState True True
        [0, 1, 0, 0, 0, 0, 0, 0, 0, 0, 0, 0, 0, 0, 0, 0, 0, 0, 0, 0, 0] 2 \<noteq> ''STANDBY''"
  by (simp add: getCurrentTallyState_def MAX_CAMERAS_def anyProgramActive.simps [of _ "Suc 0"])

text \<open>
  C2, amended: with the switcher connected, a camera in 1..\<open>MAX_CAMERAS\<close> whose program
  and preview bits are both clear derives \<^verbatim>\<open>"PREVIEW"\<close> when the standby switch is on
  and some camera in 1..\<open>MAX_CAMERAS\<close> has its program bit set, and \<^verbatim>\<open>"OFF"\<close> otherwise.
\<close>

theorem getCurrentTallyState_idle:
  assumes "length cts = MAX_CAMERAS + 1"
    and "1 \<le> unat c" and "unat c \<le> MAX_CAMERAS"
    and "cts ! unat c AND 0x01 = 0" and "cts ! unat c AND 0x02 = 0"
  shows "getCurrentTallyState standbyAsPreview True cts c =
           (if standbyAsPreview \<and> (\<exists>cam \<in> {1..MAX_CAMERAS}. cts ! cam AND 0x01 \<noteq> 0)
            then ''PREVIEW'' else ''OFF'')"
proof -
  have "anyProgramActive cts 1 \<longleftrightarrow> (\<exists>cam \<in> {1..MAX_CAMERAS}. cts ! cam AND 0x01 \<noteq> 0)"
    by (auto simp add: anyProgramActive_iff)
  with assms show ?thesis
    by (simp add: getCurrentTallyState_def)
qed

theorem getCurrentTallyState_idle_witness:
  "length [0, 1, 0, 0, 0, 0, 0, 0, 0, 0, 0, 0, 0, 0, 0, 0, 0, 0, 0, 0, 0 :: 8 word] = MAX_CAMERAS + 1
   \<and> 1 \<le> unat (2 :: 8 word) \<and> unat (2 :: 8 word) \<le> MAX_CAMERAS
   \<and> (1 :: nat) \<in> {1..MAX_CAMERAS}
   \<and> [0, 1, 0, 0, 0, 0, 0, 0, 0, 0, 0, 0, 0, 0, 0, 0, 0, 0, 0, 0, 0 :: 8 word] ! 1 AND 0x01 \<noteq> 0
   \<and> getCurrentTallyState True True
        [0, 1, 0, 0, 0, 0, 0, 0, 0, 0, 0, 0, 0, 0, 0, 0, 0, 0, 0, 0, 0] 2 = ''PREVIEW''
   \<and> getCurrentTallyState False True
        [0, 1, 0, 0, 0, 0, 0, 0, 0, 0, 0, 0, 0, 0, 0, 0, 0, 0, 0, 0, 0] 2 = ''OFF''"
proof -
  let ?cts = "[0, 1, 0, 0, 0, 0, 0, 0, 0, 0, 0, 0, 0, 0, 0, 0, 0, 0, 0, 0, 0 :: 8 word]"
  have live: "\<exists>cam \<in> {1..MAX_CAMERAS}. ?cts ! cam AND 0x01 \<noteq> 0"
    by (rule bexI [of _ 1]) (simp_all add: MAX_CAMERAS_def)
  have hyps: "length ?cts = MAX_CAMERAS + 1" "1 \<le> unat (2 :: 8 word)"
    "unat (2 :: 8 word) \<le> MAX_CAMERAS" "?cts ! unat (2 :: 8 word) AND 0x01 = 0"
    "?cts ! unat (2 :: 8 word) AND 0x02 = 0"
    by (simp_all add: MAX_CAMERAS_def)
  from getCurrentTallyState_idle [OF hyps, of True] live
  have on: "getCurrentTallyState True True ?cts 2 = ''PREVIEW''" by simp
  from getCurrentTallyState_idle [OF hyps, of False]
  have off: "getCurrentTallyState False True ?cts 2 = ''OFF''" by simp
  from on off show ?thesis by (simp add: MAX_CAMERAS_def)
qed

subsection \<open>Disconnect events on the bridge\<close>

lemma onDisconnect_slots_first:
  assumes "k \<le> i" and "i < MAX_TALLY_DEVICES" and "TallyDevice.connected (devs ! i)"
    and "\<forall>j. k \<le> j \<and> j < i \<longrightarrow> \<not> TallyDevice.connected (devs ! j)"
  shows "onDisconnect_slots devs k = devs[i := (devs ! i)\<lparr>TallyDevice.connected := False\<rparr>]"
  using assms
proof (induction devs k rule: onDisconnect_slots.induct)
  case (1 devs k)
  show ?case
  proof (cases "k = i")
    case True
    with "1.prems" show ?thesis
      by (simp add: onDisconnect_slots.simps [of devs i])
  next
    case False
    with "1.prems" have below: "k < i" and down: "\<not> TallyDevice.connected (devs ! k)"
      by auto
    from below "1.prems" have inrange: "k < MAX_TALLY_DEVICES" by simp
    have "onDisconnect_slots devs (k + 1) = devs[i := (devs ! i)\<lparr>TallyDevice.connected := False\<rparr>]"
      using "1.IH" [OF inrange down] below "1.prems" by simp
    with inrange down show ?thesis
      by (simp add: onDisconnect_slots.simps [of devs k])
  qed
qed

lemma onDisconnect_slots_none:
  assumes "\<forall>j. k \<le> j \<and> j < MAX_TALLY_DEVICES \<longrightarrow> \<not> TallyDevice.connected (devs ! j)"
  shows "onDisconnect_slots devs k = devs"
  using assms
proof (induction devs k rule: onDisconnect_slots.induct)
  case (1 devs k)
  show ?case
  proof (cases "k < MAX_TALLY_DEVICES")
    case False
    then show ?thesis by (simp add: onDisconnect_slots.simps [of devs k])
  next
    case True
    with "1.prems" have down: "\<not> TallyDevice.connected (devs ! k)" by simp
    have "onDisconnect_slots devs (k + 1) = devs"
      using "1.IH" [OF True down] "1.prems" by simp
    with True down show ?thesis
      by (simp add: onDisconnect_slots.simps [of devs k])
  qed
qed

text \<open>
  C9: a disconnect event clears the connected flag of the lowest-index slot whose flag is
  set, and of no other slot; the callback has no argument that says which client left, so
  the choice cannot depend on it. The slot keeps its name, its camera and its registered
  flag, and every other slot is as before.
\<close>

theorem onDisconnect_clears_lowest_connected_slot:
  assumes len: "length (tallyDevices b) = MAX_TALLY_DEVICES"
    and i: "i < MAX_TALLY_DEVICES"
    and up: "TallyDevice.connected (tallyDevices b ! i)"
    and lowest: "\<forall>j<i. \<not> TallyDevice.connected (tallyDevices b ! j)"
  shows "tallyDevices (MyServerCallbacks_onDisconnect b) =
           (tallyDevices b)[i := (tallyDevices b ! i)\<lparr>TallyDevice.connected := False\<rparr>]
       \<and> \<not> TallyDevice.connected (tallyDevices (MyServerCallbacks_onDisconnect b) ! i)
       \<and> deviceName (tallyDevices (MyServerCallbacks_onDisconnect b) ! i) = deviceName (tallyDevices b ! i)
       \<and> TallyDevice.cameraId (tallyDevices (MyServerCallbacks_onDisconnect b) ! i) =
           TallyDevice.cameraId (tallyDevices b ! i)
       \<and> TallyDevice.registered (tallyDevices (MyServerCallbacks_onDisconnect b) ! i) =
           TallyDevice.registered (tallyDevices b ! i)
       \<and> (\<forall>j<MAX_TALLY_DEVICES. j \<noteq> i \<longrightarrow>
             tallyDevices (MyServerCallbacks_onDisconnect b) ! j = tallyDevices b ! j)"
proof -
  have "onDisconnect_slots (tallyDevices b) 0 =
          (tallyDevices b)[i := (tallyDevices b ! i)\<lparr>TallyDevice.connected := False\<rparr>]"
    using i up lowest by (intro onDisconnect_slots_first) simp_all
  then have eq: "tallyDevices (MyServerCallbacks_onDisconnect b) =
          (tallyDevices b)[i := (tallyDevices b ! i)\<lparr>TallyDevice.connected := False\<rparr>]"
    by (simp add: MyServerCallbacks_onDisconnect_def)
  from i len have "i < length (tallyDevices b)" by simp
  with eq show ?thesis by simp
qed

text \<open>
  With two clients connected, slot 0 is the one cleared and slot 1 stays connected,
  whichever of the two went away.
\<close>

theorem onDisconnect_clears_lowest_connected_slot_witness:
  "tallyDevices (MyServerCallbacks_onDisconnect
      (bridge_of [claimed_slot ''Tally_A'' 1 True, claimed_slot ''Tally_B'' 2 True,
                  free_slot, free_slot])) =
     [claimed_slot ''Tally_A'' 1 False, claimed_slot ''Tally_B'' 2 True, free_slot, free_slot]"
proof -
  let ?b = "bridge_of [claimed_slot ''Tally_A'' 1 True, claimed_slot ''Tally_B'' 2 True,
                  free_slot, free_slot]"
  have hyps: "length (tallyDevices ?b) = MAX_TALLY_DEVICES" "0 < MAX_TALLY_DEVICES"
    "TallyDevice.connected (tallyDevices ?b ! 0)"
    "\<forall>j<0. \<not> TallyDevice.connected (tallyDevices ?b ! j)"
    by (simp_all add: bridge_of_def claimed_slot_def MAX_TALLY_DEVICES_def)
  from onDisconnect_clears_lowest_connected_slot [OF hyps]
  show ?thesis by (simp add: bridge_of_def claimed_slot_def)
qed

subsection \<open>Routing of state changes\<close>

lemma broadcastTallyData_slots_eq:
  "broadcastTallyData_slots now atem devs c st i =
     (concat (map (\<lambda>j. sendTallyToDevice now atem devs (int j) c st)
        (filter (\<lambda>j. TallyDevice.connected (devs ! j) \<and> TallyDevice.registered (devs ! j))
           [i..<MAX_TALLY_DEVICES])),
      length (filter (\<lambda>j. TallyDevice.connected (devs ! j) \<and> TallyDevice.registered (devs ! j))
           [i..<MAX_TALLY_DEVICES]))"
proof (induction now atem devs c st i rule: broadcastTallyData_slots.induct)
  case (1 now atem devs c st i)
  show ?case
  proof (cases "i < MAX_TALLY_DEVICES")
    case False
    then show ?thesis
      by (simp add: broadcastTallyData_slots.simps [of now atem devs c st i])
  next
    case True
    then have split: "[i..<MAX_TALLY_DEVICES] = i # [i + 1..<MAX_TALLY_DEVICES]"
      by (simp add: upt_conv_Cons)
    show ?thesis
    proof (cases "TallyDevice.connected (devs ! i) \<and> TallyDevice.registered (devs ! i)")
      case target: True
      with True "1.IH"(1) show ?thesis
        by (simp add: broadcastTallyData_slots.simps [of now atem devs c st i] split)
    next
      case skipped: False
      with True "1.IH"(2) show ?thesis
        by (simp add: broadcastTallyData_slots.simps [of now atem devs c st i] split)
    qed
  qed
qed

lemma sendTallyToDevice_slot:
  assumes "j < MAX_TALLY_DEVICES" and "TallyDevice.connected (devs ! j)"
  shows "sendTallyToDevice now atem devs (int j) c st =
           (if characteristic (devs ! j) \<noteq> None
            then [(j, msg_bytes (buildTallyMessage now atem c st))] else [])"
  using assms by (simp add: sendTallyToDevice_def)

lemma concat_sends:
  assumes "\<forall>j \<in> set js. j < MAX_TALLY_DEVICES"
  shows "concat (map (\<lambda>j. sendTallyToDevice now atem devs (int j) c st)
           (filter (\<lambda>j. TallyDevice.connected (devs ! j) \<and> TallyDevice.registered (devs ! j)) js)) =
         map (\<lambda>j. (j, msg_bytes (buildTallyMessage now atem c st)))
           (filter (\<lambda>j. TallyDevice.connected (devs ! j) \<and> TallyDevice.registered (devs ! j)
                        \<and> characteristic (devs ! j) \<noteq> None) js)"
  using assms
proof (induction js)
  case Nil
  show ?case by simp
next
  case (Cons j js)
  then have "j < MAX_TALLY_DEVICES" by simp
  with Cons show ?case
    by (simp add: sendTallyToDevice_slot)
qed

text \<open>
  C4, amended: \<^verbatim>\<open>broadcastTallyData\<close> notifies exactly the slots that are connected and
  registered (and hold a characteristic), in index order and whatever camera each slot is
  assigned to; a slot that is not connected gets nothing, and nothing is kept for it: the
  slot table is unchanged and only the send counter and two timestamps are written.
\<close>

theorem broadcastTallyData_recipients:
  "fst (broadcastTallyData now atemConnected c st b) =
     map (\<lambda>j. (j, msg_bytes (buildTallyMessage now atemConnected c st)))
       (filter (\<lambda>j. TallyDevice.connected (tallyDevices b ! j)
                    \<and> TallyDevice.registered (tallyDevices b ! j)
                    \<and> characteristic (tallyDevices b ! j) \<noteq> None)
          [0..<MAX_TALLY_DEVICES])
   \<and> snd (broadcastTallyData now atemConnected c st b) =
       b\<lparr>totalMessagesSent := totalMessagesSent b
            + of_nat (length (filter (\<lambda>j. TallyDevice.connected (tallyDevices b ! j)
                                         \<and> TallyDevice.registered (tallyDevices b ! j))
                                [0..<MAX_TALLY_DEVICES])),
         lastStateChange := now, lastTallyBroadcast := now\<rparr>
   \<and> tallyDevices (snd (broadcastTallyData now atemConnected c st b)) = tallyDevices b"
proof -
  have range: "\<forall>j \<in> set [0..<MAX_TALLY_DEVICES]. j < MAX_TALLY_DEVICES" by simp
  show ?thesis
    by (simp add: broadcastTallyData_def broadcastTallyData_slots_eq concat_sends [OF range])
qed

theorem broadcastTallyData_recipients_witness:
  "map fst (fst (broadcastTallyData 0 True 1 ''PROGRAM''
      (bridge_of [claimed_slot ''Tally_A'' 2 True, claimed_slot ''Tally_B'' 1 False,
                  claimed_slot ''Tally_C'' 1 True, free_slot]))) = [0, 2]
   \<and> tallyDevices (snd (broadcastTallyData 0 True 1 ''PROGRAM''
      (bridge_of [claimed_slot ''Tally_A'' 2 True, claimed_slot ''Tally_B'' 1 False,
                  claimed_slot ''Tally_C'' 1 True, free_slot]))) =
      [claimed_slot ''Tally_A'' 2 True, claimed_slot ''Tally_B'' 1 False,
                  claimed_slot ''Tally_C'' 1 True, free_slot]"
  using broadcastTallyData_recipients [of 0 True 1 "''PROGRAM''"
      "bridge_of [claimed_slot ''Tally_A'' 2 True, claimed_slot ''Tally_B'' 1 False,
                  claimed_slot ''Tally_C'' 1 True, free_slot]"]
  by (simp add: bridge_of_def claimed_slot_def free_slot_def MAX_TALLY_DEVICES_def upt_rec comp_def)

text \<open>
  C4, as stated, fails: a state change of camera 1 is also sent to slot 0, which is
  connected and registered but assigned to camera 2.
\<close>

theorem broadcast_reaches_other_camera:
  "TallyDevice.cameraId (tallyDevices
      (bridge_of [claimed_slot ''Tally_A'' 2 True, claimed_slot ''Tally_B'' 1 False,
                  claimed_slot ''Tally_C'' 1 True, free_slot]) ! 0) = 2
   \<and> map fst (fst (broadcastTallyData 0 True 1 ''PROGRAM''
      (bridge_of [claimed_slot ''Tally_A'' 2 True, claimed_slot ''Tally_B'' 1 False,
                  claimed_slot ''Tally_C'' 1 True, free_slot]))) = [0, 2]"
  by (simp add: broadcastTallyData_def broadcastTallyData_slots_eq sendTallyToDevice_def
      bridge_of_def claimed_slot_def free_slot_def MAX_TALLY_DEVICES_def upt_rec)

subsection \<open>Registration\<close>

lemma onWrite_slots_rejected:
  assumes "\<forall>j. i \<le> j \<and> j < MAX_TALLY_DEVICES \<longrightarrow>
             TallyDevice.registered (tallyDevices b ! j) \<and> deviceName (tallyDevices b ! j) \<noteq> name"
  shows "onWrite_slots now atem standby p camId name b i = ([], b)"
  using assms
proof (induction now atem standby p camId name b i rule: onWrite_slots.induct)
  case (1 now atem standby p camId name b i)
  show ?case
  proof (cases "i < MAX_TALLY_DEVICES")
    case False
    then show ?thesis
      by (simp add: onWrite_slots.simps [of now atem standby p camId name b i])
  next
    case True
    with "1.prems" have taken: "TallyDevice.registered (tallyDevices b ! i)"
      and other: "deviceName (tallyDevices b ! i) \<noteq> name"
      by simp_all
    have "onWrite_slots now atem standby p camId name b (i + 1) = ([], b)"
      using "1.IH" [OF True] taken other "1.prems" by simp
    with True taken other show ?thesis
      by (simp add: onWrite_slots.simps [of now atem standby p camId name b i])
  qed
qed

lemma onWrite_slots_found:
  assumes "i \<le> k" and "k < MAX_TALLY_DEVICES"
    and "length (tallyDevices b) = MAX_TALLY_DEVICES"
    and "TallyDevice.registered (tallyDevices b ! k)"
    and "deviceName (tallyDevices b ! k) = name"
    and "\<forall>j. i \<le> j \<and> j < k \<longrightarrow>
           TallyDevice.registered (tallyDevices b ! j) \<and> deviceName (tallyDevices b ! j) \<noteq> name"
  shows "onWrite_slots now atem standby p camId name b i =
           ([(k, msg_bytes (buildTallyMessage now atem camId
                   (getCurrentTallyState standby atem (currentTallyStates b) camId)))],
            b\<lparr>tallyDevices := (tallyDevices b)
                 [k := (tallyDevices b ! k)
                    \<lparr>deviceName := name, TallyDevice.cameraId := camId, lastSeen := now,
                     TallyDevice.connected := True, characteristic := Some p\<rparr>]\<rparr>)"
  using assms
proof (induction now atem standby p camId name b i rule: onWrite_slots.induct)
  case (1 now atem standby p camId name b i)
  show ?case
  proof (cases "i = k")
    case True
    with "1.prems" show ?thesis
      by (simp add: onWrite_slots.simps [of now atem standby p camId name b k]
          sendTallyToDevice_def Let_def)
  next
    case False
    with "1.prems" have below: "i < k" by simp
    with "1.prems" have inrange: "i < MAX_TALLY_DEVICES"
      and taken: "TallyDevice.registered (tallyDevices b ! i)"
      and other: "deviceName (tallyDevices b ! i) \<noteq> name"
      by simp_all
    have "onWrite_slots now atem standby p camId name b (i + 1) =
           ([(k, msg_bytes (buildTallyMessage now atem camId
                   (getCurrentTallyState standby atem (currentTallyStates b) camId)))],
            b\<lparr>tallyDevices := (tallyDevices b)
                 [k := (tallyDevices b ! k)
                    \<lparr>deviceName := name, TallyDevice.cameraId := camId, lastSeen := now,
                     TallyDevice.connected := True, characteristic := Some p\<rparr>]\<rparr>)"
      using "1.IH" [OF inrange] taken other below "1.prems" by simp
    with inrange taken other show ?thesis
      by (simp add: onWrite_slots.simps [of now atem standby p camId name b i])
  qed
qed

text \<open>
  The slot loop by itself, given a camera and a name: when all \<open>MAX_TALLY_DEVICES\<close>
  slots are registered, with distinct names, a name that no slot holds changes nothing
  and sends nothing; the name of slot \<open>k\<close> writes the new camera (with the time, the link
  flag and the characteristic) into slot \<open>k\<close>, sends the camera's state to that slot and
  leaves every other slot as it was.
\<close>

lemma onWrite_slots_full_registry:
  assumes len: "length (tallyDevices b) = MAX_TALLY_DEVICES"
    and full: "\<forall>j<MAX_TALLY_DEVICES. TallyDevice.registered (tallyDevices b ! j)"
    and dist: "distinct (map deviceName (tallyDevices b))"
  shows "(name \<notin> set (map deviceName (tallyDevices b)) \<longrightarrow>
            onWrite_slots now atemConnected standbyAsPreview p camId name b 0 = ([], b))
       \<and> (\<forall>k<MAX_TALLY_DEVICES. deviceName (tallyDevices b ! k) = name \<longrightarrow>
            onWrite_slots now atemConnected standbyAsPreview p camId name b 0 =
              ([(k, msg_bytes (buildTallyMessage now atemConnected camId
                     (getCurrentTallyState standbyAsPreview atemConnected
                        (currentTallyStates b) camId)))],
               b\<lparr>tallyDevices := (tallyDevices b)
                    [k := (tallyDevices b ! k)
                       \<lparr>deviceName := name, TallyDevice.cameraId := camId, lastSeen := now,
                        TallyDevice.connected := True, characteristic := Some p\<rparr>]\<rparr>))"
proof (intro conjI impI allI)
  assume new: "name \<notin> set (map deviceName (tallyDevices b))"
  have "\<forall>j. 0 \<le> j \<and> j < MAX_TALLY_DEVICES \<longrightarrow>
          TallyDevice.registered (tallyDevices b ! j) \<and> deviceName (tallyDevices b ! j) \<noteq> name"
  proof (intro allI impI)
    fix j assume j: "0 \<le> j \<and> j < MAX_TALLY_DEVICES"
    with len have "deviceName (tallyDevices b ! j) \<in> set (map deviceName (tallyDevices b))"
      by (metis length_map nth_map nth_mem)
    with new full j
    show "TallyDevice.registered (tallyDevices b ! j) \<and> deviceName (tallyDevices b ! j) \<noteq> name"
      by auto
  qed
  then show "onWrite_slots now atemConnected standbyAsPreview p camId name b 0 = ([], b)"
    by (rule onWrite_slots_rejected)
next
  fix k
  assume k: "k < MAX_TALLY_DEVICES" and known: "deviceName (tallyDevices b ! k) = name"
  have others: "\<forall>j. 0 \<le> j \<and> j < k \<longrightarrow>
          TallyDevice.registered (tallyDevices b ! j) \<and> deviceName (tallyDevices b ! j) \<noteq> name"
  proof (intro allI impI)
    fix j assume j: "0 \<le> j \<and> j < k"
    with k len have "j < length (map deviceName (tallyDevices b))"
      and "k < length (map deviceName (tallyDevices b))" and "j \<noteq> k"
      by simp_all
    with dist have "map deviceName (tallyDevices b) ! j \<noteq> map deviceName (tallyDevices b) ! k"
      by (metis nth_eq_iff_index_eq)
    with j k len known full
    show "TallyDevice.registered (tallyDevices b ! j) \<and> deviceName (tallyDevices b ! j) \<noteq> name"
      by simp
  qed
  from k full have "TallyDevice.registered (tallyDevices b ! k)" by simp
  with k len known others
  show "onWrite_slots now atemConnected standbyAsPreview p camId name b 0 =
              ([(k, msg_bytes (buildTallyMessage now atemConnected camId
                     (getCurrentTallyState standbyAsPreview atemConnected
                        (currentTallyStates b) camId)))],
               b\<lparr>tallyDevices := (tallyDevices b)
                    [k := (tallyDevices b ! k)
                       \<lparr>deviceName := name, TallyDevice.cameraId := camId, lastSeen := now,
                        TallyDevice.connected := True, characteristic := Some p\<rparr>]\<rparr>)"
    by (intro onWrite_slots_found) simp_all
qed

lemma regMessage_value: "regMessage = ''TALLY_REG:1:Tally_CAM_1''"
  by (simp add: regMessage_def CAMERA_ID_def DEVICE_NAME_def String_of_nat.simps [of "Suc 0"]
      char_of_def bit_0)

text \<open>
  C1 does not hold of the code. \<^verbatim>\<open>indexOf(':', 10)\<close> starts after the prefix and so finds
  the colon that ends the camera id; the handler then wants one more colon after it. The
  message that the light sends, \<^verbatim>\<open>"TALLY_REG:1:Tally_CAM_1"\<close>, has none: the handler
  returns without touching the registry and without sending anything.
\<close>

theorem onWrite_drops_light_registration:
  "MyCharacteristicCallbacks_onWrite now atemConnected standbyAsPreview p regMessage b = ([], b)"
  by (simp add: regMessage_value MyCharacteristicCallbacks_onWrite_def String_trim_def
      String_startsWith_def String_indexOf_def isspace_def)

theorem onWrite_drops_light_registration_witness:
  "regMessage = ''TALLY_REG:1:Tally_CAM_1''
   \<and> MyCharacteristicCallbacks_onWrite 0 True True 7 ''TALLY_REG:1:Tally_CAM_1''
       (bridge_of initial_tallyDevices) = ([], bridge_of initial_tallyDevices)"
  using onWrite_drops_light_registration [of 0 True True 7 "bridge_of initial_tallyDevices"]
  by (simp add: regMessage_value)

text \<open>
  When the name itself holds a colon the handler does find its second colon, inside the
  name, and registers what follows it: \<^verbatim>\<open>"TALLY_REG:1:Tally:CAM"\<close> claims slot 0 of an
  empty registry for camera 1 under the name \<^verbatim>\<open>"CAM"\<close>.
\<close>

lemma onWrite_identity_with_colon:
  "tallyDevices (snd (MyCharacteristicCallbacks_onWrite 5 True True 7 ''TALLY_REG:1:Tally:CAM''
      (bridge_of initial_tallyDevices))) =
     [\<lparr>deviceName = ''CAM'', cameraId = 1, lastSeen = 5, connected = True, registered = True,
       characteristic = Some 7\<rparr>,
      free_slot, free_slot, free_slot]"
proof -
  have parse: "String_indexOf ''TALLY_REG:1:Tally:CAM'' CHR '':'' 10 = 11"
    "String_indexOf ''TALLY_REG:1:Tally:CAM'' CHR '':'' 12 = 17"
    "String_substring ''TALLY_REG:1:Tally:CAM'' 10 11 = ''1''"
    "String_substring ''TALLY_REG:1:Tally:CAM'' 18 21 = ''CAM''"
    "String_toInt ''1'' = 1"
    by (simp_all add: String_indexOf_def String_substring_def String_toInt_def isspace_def
        isdigit_def)
  have slots: "initial_tallyDevices = [free_slot, free_slot, free_slot, free_slot]"
    by (simp add: initial_tallyDevices_def free_slot_def MAX_TALLY_DEVICES_def numeral_eq_Suc)
  show ?thesis
    by (simp add: MyCharacteristicCallbacks_onWrite_def String_trim_def String_startsWith_def
        isspace_def parse slots bridge_of_def free_slot_def
        onWrite_slots.simps [of _ _ _ _ _ _ _ 0] MAX_TALLY_DEVICES_def
        Let_def String_substring_def)
qed

text \<open>
  C8 does not hold of the code, for the reason C1 does not: the handler looks for the
  name behind a third colon. On a full registry of distinct names that holds
  \<^verbatim>\<open>"Tally_B"\<close> for camera 2, the registration \<^verbatim>\<open>"TALLY_REG:6:Tally_B"\<close> is dropped
  and the slot keeps camera 2; the registration \<^verbatim>\<open>"TALLY_REG:6:Y:cam"\<close>, whose name
  \<^verbatim>\<open>"Y:cam"\<close> no slot holds, is taken for the name \<^verbatim>\<open>"cam"\<close> and overwrites the slot
  of that other device with camera 6.
\<close>

theorem onWrite_full_registry_misparsed:
  "length full_registry = MAX_TALLY_DEVICES
   \<and> list_all TallyDevice.registered full_registry
   \<and> distinct (map deviceName full_registry)
   \<and> ''Tally_B'' \<in> set (map deviceName full_registry)
   \<and> ''Y:cam'' \<notin> set (map deviceName full_registry)
   \<and> MyCharacteristicCallbacks_onWrite now atemConnected standbyAsPreview p
         ''TALLY_REG:6:Tally_B'' (bridge_of full_registry) = ([], bridge_of full_registry)
   \<and> MyCharacteristicCallbacks_onWrite now atemConnected standbyAsPreview p
         ''TALLY_REG:6:Y:cam'' (bridge_of full_registry) =
       ([(3, msg_bytes (buildTallyMessage now atemConnected 6
               (getCurrentTallyState standbyAsPreview atemConnected
                  (currentTallyStates (bridge_of full_registry)) 6)))],
        bridge_of (full_registry
          [3 := \<lparr>deviceName = ''cam'', cameraId = 6, lastSeen = now, connected = True,
                 registered = True, characteristic = Some p\<rparr>]))"
proof -
  let ?b = "bridge_of full_registry"
  have len: "length (tallyDevices ?b) = MAX_TALLY_DEVICES"
    by (simp add: bridge_of_def full_registry_def MAX_TALLY_DEVICES_def)
  have full: "\<forall>j<MAX_TALLY_DEVICES. TallyDevice.registered (tallyDevices ?b ! j)"
    by (simp add: bridge_of_def full_registry_def MAX_TALLY_DEVICES_def claimed_slot_def
        nth_Cons' less_Suc_eq all_conj_distrib numeral_eq_Suc)
  have dist: "distinct (map deviceName (tallyDevices ?b))"
    by (simp add: bridge_of_def full_registry_def claimed_slot_def)
  have facts: "length full_registry = MAX_TALLY_DEVICES"
    "list_all TallyDevice.registered full_registry"
    "distinct (map deviceName full_registry)"
    "''Tally_B'' \<in> set (map deviceName full_registry)"
    "''Y:cam'' \<notin> set (map deviceName full_registry)"
    by (simp_all add: full_registry_def claimed_slot_def MAX_TALLY_DEVICES_def)
  have dropped: "MyCharacteristicCallbacks_onWrite now atemConnected standbyAsPreview p
         ''TALLY_REG:6:Tally_B'' ?b = ([], ?b)"
    by (simp add: MyCharacteristicCallbacks_onWrite_def String_trim_def String_startsWith_def
        String_indexOf_def isspace_def)
  have parse: "String_indexOf ''TALLY_REG:6:Y:cam'' CHR '':'' 10 = 11"
    "String_indexOf ''TALLY_REG:6:Y:cam'' CHR '':'' 12 = 13"
    "String_substring ''TALLY_REG:6:Y:cam'' 10 11 = ''6''"
    "String_substring ''TALLY_REG:6:Y:cam'' 14 (length ''TALLY_REG:6:Y:cam'') = ''cam''"
    "String_toInt ''6'' = 6"
    by (simp_all add: String_indexOf_def String_substring_def String_toInt_def isspace_def
        isdigit_def)
  have handler: "MyCharacteristicCallbacks_onWrite now atemConnected standbyAsPreview p
         ''TALLY_REG:6:Y:cam'' ?b =
       onWrite_slots now atemConnected standbyAsPreview p 6 ''cam'' ?b 0"
    unfolding MyCharacteristicCallbacks_onWrite_def
    by (simp add: String_trim_def String_startsWith_def isspace_def parse Let_def
        String_substring_def)
  have slot: "(3 :: nat) < MAX_TALLY_DEVICES" "deviceName (tallyDevices ?b ! 3) = ''cam''"
    by (simp_all add: bridge_of_def full_registry_def claimed_slot_def MAX_TALLY_DEVICES_def)
  from onWrite_slots_full_registry [OF len full dist, of "''cam''" now atemConnected
      standbyAsPreview p 6] slot
  have "onWrite_slots now atemConnected standbyAsPreview p 6 ''cam'' ?b 0 =
              ([(3, msg_bytes (buildTallyMessage now atemConnected 6
                     (getCurrentTallyState standbyAsPreview atemConnected
                        (currentTallyStates ?b) 6)))],
               ?b\<lparr>tallyDevices := (tallyDevices ?b)
                    [3 := (tallyDevices ?b ! 3)
                       \<lparr>deviceName := ''cam'', TallyDevice.cameraId := 6, lastSeen := now,
                        TallyDevice.connected := True, characteristic := Some p\<rparr>]\<rparr>)"
    by blast
  also have "?b\<lparr>tallyDevices := (tallyDevices ?b)
                    [3 := (tallyDevices ?b ! 3)
                       \<lparr>deviceName := ''cam'', TallyDevice.cameraId := 6, lastSeen := now,
                        TallyDevice.connected := True, characteristic := Some p\<rparr>]\<rparr> =
        bridge_of (full_registry
          [3 := \<lparr>deviceName = ''cam'', cameraId = 6, lastSeen = now, connected = True,
                 registered = True, characteristic = Some p\<rparr>])"
    by (simp add: bridge_of_def full_registry_def claimed_slot_def)
  finally have overwritten: "MyCharacteristicCallbacks_onWrite now atemConnected standbyAsPreview
      p ''TALLY_REG:6:Y:cam'' ?b =
       ([(3, msg_bytes (buildTallyMessage now atemConnected 6
               (getCurrentTallyState standbyAsPreview atemConnected
                  (currentTallyStates ?b) 6)))],
        bridge_of (full_registry
          [3 := \<lparr>deviceName = ''cam'', cameraId = 6, lastSeen = now, connected = True,
                 registered = True, characteristic = Some p\<rparr>]))"
    by (simp only: handler)
  from facts dropped overwritten show ?thesis by blast
qed

theorem onWrite_full_registry_misparsed_witness:
  "MyCharacteristicCallbacks_onWrite 5 True True 9 ''TALLY_REG:6:Tally_B''
       (bridge_of full_registry) = ([], bridge_of full_registry)
   \<and> tallyDevices (snd (MyCharacteristicCallbacks_onWrite 5 True True 9 ''TALLY_REG:6:Y:cam''
       (bridge_of full_registry))) =
       [claimed_slot ''Tally_A'' 1 True, claimed_slot ''Tally_B'' 2 False,
        claimed_slot ''Tally_C'' 3 True,
        \<lparr>deviceName = ''cam'', cameraId = 6, lastSeen = 5, connected = True,
         registered = True, characteristic = Some 9\<rparr>]
   \<and> map fst (fst (MyCharacteristicCallbacks_onWrite 5 True True 9 ''TALLY_REG:6:Y:cam''
       (bridge_of full_registry))) = [3]"
proof -
  note at = onWrite_full_registry_misparsed [where now = 5 and atemConnected = True
      and standbyAsPreview = True and p = 9]
  from at have dropped: "MyCharacteristicCallbacks_onWrite 5 True True 9 ''TALLY_REG:6:Tally_B''
       (bridge_of full_registry) = ([], bridge_of full_registry)"
    by blast
  from at have "MyCharacteristicCallbacks_onWrite 5 True True 9 ''TALLY_REG:6:Y:cam''
         (bridge_of full_registry) =
       ([(3, msg_bytes (buildTallyMessage 5 True 6
               (getCurrentTallyState True True
                  (currentTallyStates (bridge_of full_registry)) 6)))],
        bridge_of (full_registry
          [3 := \<lparr>deviceName = ''cam'', cameraId = 6, lastSeen = 5, connected = True,
                 registered = True, characteristic = Some 9\<rparr>]))"
    by blast
  then have slots: "tallyDevices (snd (MyCharacteristicCallbacks_onWrite 5 True True 9
       ''TALLY_REG:6:Y:cam'' (bridge_of full_registry))) =
       [claimed_slot ''Tally_A'' 1 True, claimed_slot ''Tally_B'' 2 False,
        claimed_slot ''Tally_C'' 3 True,
        \<lparr>deviceName = ''cam'', cameraId = 6, lastSeen = 5, connected = True,
         registered = True, characteristic = Some 9\<rparr>]"
    and sent: "map fst (fst (MyCharacteristicCallbacks_onWrite 5 True True 9
       ''TALLY_REG:6:Y:cam'' (bridge_of full_registry))) = [3]"
    by (simp_all add: bridge_of_def full_registry_def)
  from dropped slots sent show ?thesis by blast
qed

subsection \<open>The message codec\<close>

lemma le32_decode_le32: "le32_decode (le32 w) = w"
proof (rule bit_word_eqI)
  fix n assume n: "n < LENGTH(32)"
  then consider "n < 8" | "8 \<le> n \<and> n < 16" | "16 \<le> n \<and> n < 24" | "24 \<le> n \<and> n < 32"
    by fastforce
  then show "bit (le32_decode (le32 w)) n = bit w n"
  proof cases
    case 1
    then show ?thesis by (simp add: le32_decode_def le32_def bit_simps)
  next
    case 2
    then have "8 + (n - 8) = n" by simp
    with 2 show ?thesis by (auto simp add: le32_decode_def le32_def bit_simps)
  next
    case 3
    then have "16 + (n - 16) = n" by simp
    with 3 show ?thesis by (auto simp add: le32_decode_def le32_def bit_simps)
  next
    case 4
    then have "24 + (n - 24) = n" by simp
    with 4 show ?thesis by (auto simp add: le32_decode_def le32_def bit_simps)
  qed
qed

lemma bit_byte_high: "\<not> bit (a :: 8 word) (8 + n)"
  using bit_imp_le_length [of a "8 + n"] by auto

lemma le32_le32_decode: "le32 (le32_decode [a, b, c, d]) = [a, b, c, d]"
proof -
  have "ucast (le32_decode [a, b, c, d]) = a"
    unfolding le32_decode_def by (rule bit_word_eqI) (auto simp add: bit_simps)
  moreover have "ucast (drop_bit 8 (le32_decode [a, b, c, d])) = b"
    unfolding le32_decode_def
    by (rule bit_word_eqI) (auto simp add: bit_simps bit_byte_high dest: bit_imp_le_length)
  moreover have "ucast (drop_bit 16 (le32_decode [a, b, c, d])) = c"
    unfolding le32_decode_def
    by (rule bit_word_eqI) (auto simp add: bit_simps bit_byte_high dest: bit_imp_le_length)
  moreover have "ucast (drop_bit 24 (le32_decode [a, b, c, d])) = d"
    unfolding le32_decode_def
    by (rule bit_word_eqI) (auto simp add: bit_simps bit_byte_high dest: bit_imp_le_length)
  ultimately show ?thesis by (simp add: le32_def)
qed

lemma fold_xor_start:
  "fold (\<lambda>b x. x XOR b) xs (a XOR d) = fold (\<lambda>b x. x XOR b) xs (a :: 8 word) XOR d"
proof (induction xs arbitrary: a)
  case Nil
  show ?case by simp
next
  case (Cons y ys)
  have "(a XOR d) XOR y = (a XOR y) XOR d" by (simp add: ac_simps)
  with Cons.IH [of "a XOR y"] show ?case by simp
qed

lemma fold_xor_update:
  "i < length xs \<Longrightarrow>
     fold (\<lambda>b x. x XOR b) (xs[i := xs ! i XOR d]) (a :: 8 word) = fold (\<lambda>b x. x XOR b) xs a XOR d"
proof (induction xs arbitrary: i a)
  case Nil
  then show ?case by simp
next
  case (Cons y ys)
  show ?case
  proof (cases i)
    case 0
    have "a XOR (y XOR d) = (a XOR y) XOR d" by (simp add: ac_simps)
    with 0 fold_xor_start [of ys "a XOR y" d] show ?thesis by simp
  next
    case (Suc n)
    with Cons show ?thesis by simp
  qed
qed

lemma flip_bit_word: "flip_bit k (w :: 8 word) = w XOR push_bit k 1"
  by (simp add: flip_bit_eq_xor)

lemma push_bit_nonzero: "k < 8 \<Longrightarrow> push_bit k (1 :: 8 word) \<noteq> 0"
proof
  assume k: "k < 8" and zero: "push_bit k (1 :: 8 word) = 0"
  from k have "bit (push_bit k (1 :: 8 word)) k" by (simp add: bit_simps)
  moreover have "\<not> bit (0 :: 8 word) k" by simp
  ultimately show False using zero by metis
qed

lemma xor_changes: "d \<noteq> 0 \<Longrightarrow> (w :: 8 word) XOR d \<noteq> w"
proof
  assume d: "d \<noteq> 0" and same: "w XOR d = w"
  have "d = w XOR (w XOR d)" by (simp add: xor.assoc [symmetric])
  with same have "d = 0" by simp
  with d show False by simp
qed

lemma unat_of_char: "unat (of_char c :: 8 word) = of_char c"
proof -
  have "(of_char c :: 8 word) = of_nat (of_char c)" by (simp add: of_nat_of_char)
  then have "unat (of_char c :: 8 word) = (of_char c :: nat) mod 256"
    by (simp only: unat_of_nat) simp
  then show ?thesis by simp
qed

lemma of_char_word_eq_0: "(of_char c :: 8 word) = 0 \<longleftrightarrow> c = CHR 0x00"
proof
  assume "(of_char c :: 8 word) = 0"
  then have "unat (of_char c :: 8 word) = 0" by simp
  then have "(of_char c :: nat) = of_char (CHR 0x00)" by (simp add: unat_of_char)
  then show "c = CHR 0x00" by (simp only: of_char_eq_iff)
next
  assume "c = CHR 0x00"
  then show "(of_char c :: 8 word) = 0" by simp
qed

lemma char_of_unat_of_char: "char_of (unat (of_char c :: 8 word)) = c"
  by (simp add: unat_of_char)

lemma strncpy_state_valid:
  assumes "length st \<le> 11" and "CHR 0x00 \<notin> set st"
  shows "strncpy_state st = map of_char st @ 0 # replicate (11 - length st) 0"
proof -
  from assms(2) have whole: "takeWhile (\<lambda>c. c \<noteq> CHR 0x00) st = st"
    by (auto simp add: takeWhile_eq_all_conv)
  show ?thesis
    unfolding strncpy_state_def whole using assms(1)
    by (simp add: replicate_append_same)
qed

lemma length_strncpy_state: "length (strncpy_state st) = 12"
  by (simp add: strncpy_state_def Let_def)

lemma state_bytes_nonzero:
  assumes "CHR 0x00 \<notin> set st"
  shows "\<forall>b \<in> set (map of_char st). b \<noteq> (0 :: 8 word)"
  using assms by (auto simp add: of_char_word_eq_0)

lemma takeWhile_terminated:
  assumes "\<forall>b \<in> set P. b \<noteq> (0 :: 8 word)"
  shows "takeWhile (\<lambda>b. b \<noteq> 0) (P @ 0 # rest) = P"
  using assms by simp

lemma length_le32: "length (le32 w) = 4"
  by (simp add: le32_def)

lemma le32_le32_decode_list:
  assumes "length T = 4"
  shows "le32 (le32_decode T) = T"
proof -
  from assms obtain a b c d where "T = [a, b, c, d]"
    by (auto simp add: length_Suc_conv numeral_eq_Suc)
  then show ?thesis by (simp add: le32_le32_decode)
qed

lemma msg_of_bytes_parts:
  assumes "length S = 12" and "length T = 4"
  shows "msg_of_bytes (c # S @ T @ [bid, sts, ck]) =
           \<lparr>TallyMessage.cameraId = c, state = S, timestamp = le32_decode T, bridgeId = bid,
            bridgeStatus = sts, checksum = ck\<rparr>"
  using assms by (simp add: msg_of_bytes_def nth_append)

lemma verifyMessage_block:
  assumes "length S = 12" and "length T = 4"
  shows "verifyMessage (msg_of_bytes (c # S @ T @ [bid, sts, ck])) \<longleftrightarrow>
           ck = fold (\<lambda>b x. x XOR b) (takeWhile (\<lambda>b. b \<noteq> 0) (S @ T @ [bid, sts, 0]))
                  (c XOR bid XOR sts)"
  using assms
  by (simp add: msg_of_bytes_parts verifyMessage_def calculateChecksum_def c_str_state_def
      msg_bytes_def le32_le32_decode_list)

lemma msg_of_bytes_msg_bytes:
  assumes "length (state msg) = 12"
  shows "msg_of_bytes (msg_bytes msg) = msg"
  using assms
  by (simp add: msg_bytes_def msg_of_bytes_parts length_le32 le32_decode_le32)

lemma fold_xor_zeros: "fold (\<lambda>b x. x XOR b) (replicate n 0) (a :: 8 word) = a"
  by (induction n) simp_all

lemma msg_bytes_buildTallyMessage:
  assumes "length st \<le> 11" and "CHR 0x00 \<notin> set st"
  shows "msg_bytes (buildTallyMessage now atem c st) =
           c # (map of_char st @ 0 # replicate (11 - length st) 0) @ le32 now
             @ [1, if atem then 1 else 0,
                fold (\<lambda>b x. x XOR b) (map of_char st) (c XOR 1 XOR (if atem then 1 else 0))]"
proof -
  have "takeWhile (\<lambda>b. b \<noteq> 0)
          (map of_char st @ 0 # (replicate (11 - length st) 0 @ le32 now @ [1, if atem then 1 else 0, 0]))
        = (map of_char st :: 8 word list)"
    by (rule takeWhile_terminated) (rule state_bytes_nonzero [OF assms(2)])
  then show ?thesis
    by (simp add: buildTallyMessage_def Let_def msg_bytes_def calculateChecksum_def
        c_str_state_def strncpy_state_valid [OF assms])
qed

lemma verifyMessage_terminated:
  assumes "\<forall>b \<in> set P. b \<noteq> (0 :: 8 word)" and "length P + length Z = 11" and "length T = 4"
  shows "verifyMessage (msg_of_bytes (c # (P @ 0 # Z) @ T @ [bid, sts, ck])) \<longleftrightarrow>
           ck = fold (\<lambda>b x. x XOR b) P (c XOR bid XOR sts)"
proof -
  have len: "length (P @ 0 # Z) = 12" using assms(2) by simp
  have "takeWhile (\<lambda>b. b \<noteq> 0) (P @ 0 # (Z @ T @ [bid, sts, 0])) = P"
    by (rule takeWhile_terminated) (rule assms(1))
  then have "takeWhile (\<lambda>b. b \<noteq> 0) ((P @ 0 # Z) @ T @ [bid, sts, 0]) = P"
    by simp
  with verifyMessage_block [OF len assms(3), of c bid sts ck] show ?thesis
    by (simp only:)
qed

lemma buildTallyMessage_valid:
  assumes "length st \<le> 11" and "CHR 0x00 \<notin> set st"
  shows "buildTallyMessage now atem c st =
           \<lparr>TallyMessage.cameraId = c,
            state = map of_char st @ 0 # replicate (11 - length st) 0,
            timestamp = now, bridgeId = 1, bridgeStatus = (if atem then 1 else 0),
            checksum = fold (\<lambda>b x. x XOR b) (map of_char st)
                         (c XOR 1 XOR (if atem then 1 else 0))\<rparr>"
proof -
  have "takeWhile (\<lambda>b. b \<noteq> 0)
          (map of_char st @ 0 # (replicate (11 - length st) 0 @ le32 now @ [1, if atem then 1 else 0, 0]))
        = (map of_char st :: 8 word list)"
    by (rule takeWhile_terminated) (rule state_bytes_nonzero [OF assms(2)])
  then show ?thesis
    by (simp add: buildTallyMessage_def Let_def msg_bytes_def calculateChecksum_def
        c_str_state_def strncpy_state_valid [OF assms])
qed

text \<open>
  C5: for a camera id, a state string of at most 11 bytes (a C string: no NUL inside), a
  timestamp and a switcher status, the 20 bytes that the bridge sends decode to the message
  that was built, the light's \<^verbatim>\<open>verifyMessage\<close> accepts it, and the fields it reads are
  the ones encoded. The stored checksum is the XOR of \<^verbatim>\<open>cameraId\<close>, \<^verbatim>\<open>bridgeId\<close>,
  \<^verbatim>\<open>bridgeStatus\<close> and the bytes of the state string, which is also the XOR over all 12
  bytes of the state field, and the light recomputes the same value with the checksum
  field zeroed.
\<close>

theorem codec_roundtrip:
  assumes short: "length st \<le> 11" and cstr: "CHR 0x00 \<notin> set st"
  shows "let msg = buildTallyMessage now atemConnected c st; pData = msg_bytes msg in
           length pData = sizeof_TallyMessage
         \<and> msg_of_bytes pData = msg
         \<and> verifyMessage (msg_of_bytes pData)
         \<and> TallyMessage.cameraId (msg_of_bytes pData) = c
         \<and> String_of_state (msg_of_bytes pData) = st
         \<and> timestamp (msg_of_bytes pData) = now
         \<and> bridgeId (msg_of_bytes pData) = 1
         \<and> bridgeStatus (msg_of_bytes pData) = (if atemConnected then 1 else 0)
         \<and> checksum msg = fold (\<lambda>b x. x XOR b) (map of_char st)
                             (c XOR 1 XOR (if atemConnected then 1 else 0))
         \<and> checksum msg = fold (\<lambda>b x. x XOR b) (state msg)
                             (TallyMessage.cameraId msg XOR bridgeId msg XOR bridgeStatus msg)
         \<and> calculateChecksum ((msg_of_bytes pData)\<lparr>checksum := 0\<rparr>) = checksum msg"
proof -
  define msg where "msg = buildTallyMessage now atemConnected c st"
  define sts :: "8 word" where "sts = (if atemConnected then 1 else 0)"
  define P :: "8 word list" where "P = map of_char st"
  have msg: "msg = \<lparr>TallyMessage.cameraId = c, state = P @ 0 # replicate (11 - length st) 0,
            timestamp = now, bridgeId = 1, bridgeStatus = sts,
            checksum = fold (\<lambda>b x. x XOR b) P (c XOR 1 XOR sts)\<rparr>"
    unfolding msg_def sts_def P_def by (rule buildTallyMessage_valid [OF short cstr])
  have nz: "\<forall>b \<in> set P. b \<noteq> 0"
    unfolding P_def by (rule state_bytes_nonzero [OF cstr])
  have lenS: "length (state msg) = 12"
    using short by (simp add: msg P_def)
  have again: "msg_of_bytes (msg_bytes msg) = msg"
    by (rule msg_of_bytes_msg_bytes [OF lenS])
  have len: "length (msg_bytes msg) = sizeof_TallyMessage"
    using lenS by (simp add: msg_bytes_def length_le32 sizeof_TallyMessage_def)
  have cstr_msg: "c_str_state msg = P"
    using takeWhile_terminated [OF nz]
    by (simp add: c_str_state_def msg_bytes_def msg)
  have cstr0: "c_str_state (msg\<lparr>checksum := 0\<rparr>) = P"
    using takeWhile_terminated [OF nz]
    by (simp add: c_str_state_def msg_bytes_def msg)
  have calc: "calculateChecksum (msg\<lparr>checksum := 0\<rparr>) = checksum msg"
    by (simp add: calculateChecksum_def cstr0) (simp add: msg)
  have verify: "verifyMessage msg"
    by (simp add: verifyMessage_def calc)
  have str: "String_of_state msg = st"
    by (simp add: String_of_state_def cstr_msg P_def comp_def char_of_unat_of_char)
  have whole: "checksum msg = fold (\<lambda>b x. x XOR b) (state msg)
                             (TallyMessage.cameraId msg XOR bridgeId msg XOR bridgeStatus msg)"
    by (simp add: msg fold_xor_zeros del: fold_replicate)
  have fields: "TallyMessage.cameraId msg = c" "timestamp msg = now" "bridgeId msg = 1"
    "bridgeStatus msg = sts" "checksum msg = fold (\<lambda>b x. x XOR b) P (c XOR 1 XOR sts)"
    by (simp_all add: msg)
  show ?thesis
    unfolding Let_def msg_def [symmetric] again
    using len verify str whole calc fields
    by (simp add: sts_def P_def)
qed

theorem codec_roundtrip_witness:
  "length ''PROGRAM'' \<le> 11 \<and> CHR 0x00 \<notin> set ''PROGRAM''
   \<and> msg_bytes (buildTallyMessage 0x01020304 True 3 ''PROGRAM'') =
       [3, 80, 82, 79, 71, 82, 65, 77, 0, 0, 0, 0, 0, 4, 3, 2, 1, 1, 1, 87]
   \<and> verifyMessage (msg_of_bytes (msg_bytes (buildTallyMessage 0x01020304 True 3 ''PROGRAM'')))
   \<and> String_of_state (msg_of_bytes (msg_bytes (buildTallyMessage 0x01020304 True 3 ''PROGRAM'')))
       = ''PROGRAM''
   \<and> checksum (buildTallyMessage 0x01020304 True 3 ''PROGRAM'') = 87"
proof -
  have valid: "length ''PROGRAM'' \<le> 11" "CHR 0x00 \<notin> set ''PROGRAM''"
    by simp_all
  have bytes: "msg_bytes (buildTallyMessage 0x01020304 True 3 ''PROGRAM'') =
       [3, 80, 82, 79, 71, 82, 65, 77, 0, 0, 0, 0, 0, 4, 3, 2, 1, 1, 1, 87]"
  proof -
    have "replicate 4 (0 :: 8 word) = [0, 0, 0, 0]" by (simp add: numeral_eq_Suc)
    then show ?thesis
      by (simp add: msg_bytes_buildTallyMessage [OF valid] le32_def drop_bit_eq_div)
  qed
  let ?msg = "buildTallyMessage 0x01020304 True 3 ''PROGRAM''"
  from codec_roundtrip [OF valid, of "0x01020304" True 3]
  have verified: "verifyMessage (msg_of_bytes (msg_bytes ?msg))"
    and name: "String_of_state (msg_of_bytes (msg_bytes ?msg)) = ''PROGRAM''"
    and folded: "checksum ?msg =
      fold (\<lambda>b x. x XOR b) (map of_char ''PROGRAM'') (3 XOR 1 XOR (if True then 1 else 0))"
    unfolding Let_def by blast+
  from folded have sum: "checksum ?msg = 87" by simp
  from valid bytes verified name sum show ?thesis by blast
qed

subsection \<open>Single-bit flips\<close>

lemma block_head:
  "(c # S @ T @ [x, y, z]) ! 0 = c"
  "(c # S @ T @ [x, y, z])[0 := v] = v # S @ T @ [x, y, z]"
  by simp_all

lemma block_state:
  assumes "i < length S"
  shows "(c # S @ T @ [x, y, z]) ! Suc i = S ! i"
    and "(c # S @ T @ [x, y, z])[Suc i := v] = c # S[i := v] @ T @ [x, y, z]"
  using assms by (simp_all add: nth_append list_update_append)

lemma block_timestamp:
  assumes "length S = 12" and "t < length T"
  shows "(c # S @ T @ [x, y, z])[Suc (12 + t) := v] = c # S @ T[t := v] @ [x, y, z]"
  using assms by (simp add: list_update_append)

lemma block_tail:
  assumes "length S = 12" and "length T = 4"
  shows "(c # S @ T @ [x, y, z]) ! 17 = x"
    and "(c # S @ T @ [x, y, z]) ! 18 = y"
    and "(c # S @ T @ [x, y, z]) ! 19 = z"
    and "(c # S @ T @ [x, y, z])[17 := v] = c # S @ T @ [v, y, z]"
    and "(c # S @ T @ [x, y, z])[18 := v] = c # S @ T @ [x, v, z]"
    and "(c # S @ T @ [x, y, z])[19 := v] = c # S @ T @ [x, y, v]"
  using assms by (simp_all add: nth_append list_update_append)

lemma fold_xor_moved:
  "fold (\<lambda>b x. x XOR b) P (a XOR d) \<noteq> fold (\<lambda>b x. x XOR b) P (a :: 8 word)" if "d \<noteq> 0"
  using that by (simp add: fold_xor_start xor_changes)

lemma flip_cameraId_detected:
  assumes "\<forall>b \<in> set P. b \<noteq> (0 :: 8 word)" and "length P + length Z = 11" and "length T = 4"
    and "d \<noteq> 0"
  shows "\<not> verifyMessage (msg_of_bytes ((c XOR d) # (P @ 0 # Z) @ T
            @ [bid, sts, fold (\<lambda>b x. x XOR b) P (c XOR bid XOR sts)]))"
proof -
  have "(c XOR d) XOR bid XOR sts = (c XOR bid XOR sts) XOR d" by (simp add: ac_simps)
  with fold_xor_moved [OF assms(4), of P "c XOR bid XOR sts"]
  show ?thesis
    by (simp only: verifyMessage_terminated [OF assms(1-3)])
qed

lemma flip_bridgeId_detected:
  assumes "\<forall>b \<in> set P. b \<noteq> (0 :: 8 word)" and "length P + length Z = 11" and "length T = 4"
    and "d \<noteq> 0"
  shows "\<not> verifyMessage (msg_of_bytes (c # (P @ 0 # Z) @ T
            @ [bid XOR d, sts, fold (\<lambda>b x. x XOR b) P (c XOR bid XOR sts)]))"
proof -
  have "c XOR (bid XOR d) XOR sts = (c XOR bid XOR sts) XOR d" by (simp add: ac_simps)
  with fold_xor_moved [OF assms(4), of P "c XOR bid XOR sts"]
  show ?thesis
    by (simp only: verifyMessage_terminated [OF assms(1-3)])
qed

lemma flip_bridgeStatus_detected:
  assumes "\<forall>b \<in> set P. b \<noteq> (0 :: 8 word)" and "length P + length Z = 11" and "length T = 4"
    and "d \<noteq> 0"
  shows "\<not> verifyMessage (msg_of_bytes (c # (P @ 0 # Z) @ T
            @ [bid, sts XOR d, fold (\<lambda>b x. x XOR b) P (c XOR bid XOR sts)]))"
proof -
  have "c XOR bid XOR (sts XOR d) = (c XOR bid XOR sts) XOR d" by (simp add: ac_simps)
  with fold_xor_moved [OF assms(4), of P "c XOR bid XOR sts"]
  show ?thesis
    by (simp only: verifyMessage_terminated [OF assms(1-3)])
qed

lemma flip_checksum_detected:
  assumes "\<forall>b \<in> set P. b \<noteq> (0 :: 8 word)" and "length P + length Z = 11" and "length T = 4"
    and "d \<noteq> 0"
  shows "\<not> verifyMessage (msg_of_bytes (c # (P @ 0 # Z) @ T
            @ [bid, sts, fold (\<lambda>b x. x XOR b) P (c XOR bid XOR sts) XOR d]))"
  unfolding verifyMessage_terminated [OF assms(1-3)]
  using xor_changes [OF assms(4), of "fold (\<lambda>b x. x XOR b) P (c XOR bid XOR sts)"]
  by simp

lemma flip_state_detected:
  assumes "\<forall>b \<in> set P. b \<noteq> (0 :: 8 word)" and "length P + length Z = 11" and "length T = 4"
    and "d \<noteq> 0" and "i < length P" and "P ! i XOR d \<noteq> 0"
  shows "\<not> verifyMessage (msg_of_bytes (c # (P[i := P ! i XOR d] @ 0 # Z) @ T
            @ [bid, sts, fold (\<lambda>b x. x XOR b) P (c XOR bid XOR sts)]))"
proof -
  have nz: "\<forall>b \<in> set (P[i := P ! i XOR d]). b \<noteq> 0"
    using assms(1,6) set_update_subset_insert [of P i "P ! i XOR d"] by auto
  have len: "length (P[i := P ! i XOR d]) + length Z = 11"
    using assms(2) by simp
  have "fold (\<lambda>b x. x XOR b) (P[i := P ! i XOR d]) (c XOR bid XOR sts) =
          fold (\<lambda>b x. x XOR b) P (c XOR bid XOR sts) XOR d"
    by (rule fold_xor_update [OF assms(5)])
  with xor_changes [OF assms(4), of "fold (\<lambda>b x. x XOR b) P (c XOR bid XOR sts)"]
  show ?thesis
    by (simp only: verifyMessage_terminated [OF nz len assms(3)])
qed

lemma flip_terminator_detected:
  assumes "\<forall>b \<in> set P. b \<noteq> (0 :: 8 word)" and "length P + length Z = 10" and "length T = 4"
    and "d \<noteq> 0"
  shows "\<not> verifyMessage (msg_of_bytes (c # (P @ d # 0 # Z) @ T
            @ [bid, sts, fold (\<lambda>b x. x XOR b) P (c XOR bid XOR sts)]))"
proof -
  have nz: "\<forall>b \<in> set (P @ [d]). b \<noteq> 0"
    using assms(1,4) by simp
  have len: "length (P @ [d]) + length Z = 11"
    using assms(2) by simp
  have shape: "P @ d # 0 # Z = (P @ [d]) @ 0 # Z" by simp
  have "fold (\<lambda>b x. x XOR b) (P @ [d]) (c XOR bid XOR sts) =
          fold (\<lambda>b x. x XOR b) P (c XOR bid XOR sts) XOR d"
    by simp
  with xor_changes [OF assms(4), of "fold (\<lambda>b x. x XOR b) P (c XOR bid XOR sts)"]
  show ?thesis
    by (simp only: shape verifyMessage_terminated [OF nz len assms(3)])
qed

text \<open>
  C6, amended: in the 20 bytes of a message built from a valid state string, a flip of
  bit \<open>k\<close> of byte \<open>j\<close> makes \<^verbatim>\<open>verifyMessage\<close> fail when the byte is the camera id
  (0), the bridge id (17), the bridge status (18), the checksum (19), a byte of the state
  string that the flip does not turn into NUL, or the NUL that ends a state string
  shorter than 11 bytes. A flip in the timestamp (bytes 13 to 16) or in the NUL padding
  after the terminator (bytes \<open>length st + 2\<close> to 12) is not seen: the checksum does not
  cover those bytes and \<^verbatim>\<open>verifyMessage\<close> still accepts the message.
\<close>

theorem single_bit_flip_detection:
  assumes short: "length st \<le> 11" and cstr: "CHR 0x00 \<notin> set st" and bit: "k < 8"
  shows "let pData = msg_bytes (buildTallyMessage now atemConnected c st);
             tampered = pData[j := flip_bit k (pData ! j)] in
           ((j = 0 \<or> j = 17 \<or> j = 18 \<or> j = 19
              \<or> (1 \<le> j \<and> j \<le> length st \<and> flip_bit k (pData ! j) \<noteq> 0)
              \<or> (j = length st + 1 \<and> length st < 11))
             \<longrightarrow> \<not> verifyMessage (msg_of_bytes tampered))
         \<and> (((13 \<le> j \<and> j \<le> 16) \<or> (length st + 2 \<le> j \<and> j \<le> 12))
             \<longrightarrow> verifyMessage (msg_of_bytes tampered))"
proof -
  define P :: "8 word list" where "P = map of_char st"
  define Z :: "8 word list" where "Z = replicate (11 - length st) 0"
  define S where "S = P @ 0 # Z"
  define T where "T = le32 now"
  define sts :: "8 word" where "sts = (if atemConnected then 1 else 0)"
  define ck where "ck = fold (\<lambda>b x. x XOR b) P (c XOR 1 XOR sts)"
  define d :: "8 word" where "d = push_bit k 1"
  define pData where "pData = msg_bytes (buildTallyMessage now atemConnected c st)"
  have pData: "pData = c # S @ T @ [1, sts, ck]"
    unfolding pData_def S_def P_def Z_def T_def sts_def ck_def
    by (rule msg_bytes_buildTallyMessage [OF short cstr])
  have nz: "\<forall>b \<in> set P. b \<noteq> 0"
    unfolding P_def by (rule state_bytes_nonzero [OF cstr])
  have lenP: "length P = length st" by (simp add: P_def)
  have len: "length P + length Z = 11" using short by (simp add: P_def Z_def)
  have lenS: "length S = 12" using len by (simp add: S_def)
  have lenT: "length T = 4" by (simp add: T_def length_le32)
  have dnz: "d \<noteq> 0" unfolding d_def by (rule push_bit_nonzero [OF bit])
  have flip: "flip_bit k w = w XOR d" for w :: "8 word"
    by (simp add: d_def flip_bit_word)
  let ?tampered = "pData[j := flip_bit k (pData ! j)]"
  have cam: "\<not> verifyMessage (msg_of_bytes ?tampered)" if "j = 0"
    unfolding that pData block_head flip S_def ck_def
    by (rule flip_cameraId_detected [OF nz len lenT dnz])
  have bid: "\<not> verifyMessage (msg_of_bytes ?tampered)" if "j = 17"
    unfolding that pData block_tail [OF lenS lenT] flip
    unfolding S_def ck_def
    by (rule flip_bridgeId_detected [OF nz len lenT dnz])
  have status: "\<not> verifyMessage (msg_of_bytes ?tampered)" if "j = 18"
    unfolding that pData block_tail [OF lenS lenT] flip
    unfolding S_def ck_def
    by (rule flip_bridgeStatus_detected [OF nz len lenT dnz])
  have sum: "\<not> verifyMessage (msg_of_bytes ?tampered)" if "j = 19"
    unfolding that pData block_tail [OF lenS lenT] flip
    unfolding S_def ck_def
    by (rule flip_checksum_detected [OF nz len lenT dnz])
  have name: "\<not> verifyMessage (msg_of_bytes ?tampered)"
    if "1 \<le> j" and "j \<le> length st" and "flip_bit k (pData ! j) \<noteq> 0"
  proof -
    from that(1) obtain i where j: "j = Suc i" by (cases j) simp_all
    with that(2) lenP have i: "i < length P" by simp
    then have iS: "i < length S" by (simp add: S_def)
    from i have at: "S ! i = P ! i" and upd: "S[i := v] = P[i := v] @ 0 # Z" for v
      by (simp_all add: S_def nth_append list_update_append)
    from that(3) have alive: "P ! i XOR d \<noteq> 0"
      unfolding j pData block_state(1) [OF iS] at flip .
    show ?thesis
      unfolding j pData block_state [OF iS] at flip upd ck_def
      by (rule flip_state_detected [OF nz len lenT dnz i alive])
  qed
  have terminator: "\<not> verifyMessage (msg_of_bytes ?tampered)"
    if "j = length st + 1" and "length st < 11"
  proof -
    from that(2) have Z: "Z = 0 # replicate (10 - length st) 0"
      by (cases "11 - length st") (simp_all add: Z_def)
    define Z' :: "8 word list" where "Z' = replicate (10 - length st) 0"
    have len': "length P + length Z' = 10" using that(2) by (simp add: Z'_def lenP)
    have j: "j = Suc (length P)" using that(1) lenP by simp
    have iS: "length P < length S" by (simp add: S_def)
    have at: "S ! length P = 0" and upd: "S[length P := v] = P @ v # 0 # Z'" for v
      by (simp_all add: S_def Z Z'_def)
    show ?thesis
      unfolding j pData block_state [OF iS] at flip upd ck_def
      using flip_terminator_detected [OF nz len' lenT dnz, of c 1 sts] by simp
  qed
  have stamp: "verifyMessage (msg_of_bytes ?tampered)" if "13 \<le> j" and "j \<le> 16"
  proof -
    define t where "t = j - 13"
    from that lenT have j: "j = Suc (12 + t)" and t: "t < length T"
      by (simp_all add: t_def)
    have lenT': "length (T[t := v]) = 4" for v using lenT by simp
    show ?thesis
      unfolding j pData block_timestamp [OF lenS t]
      unfolding S_def verifyMessage_terminated [OF nz len lenT'] ck_def ..
  qed
  have padding: "verifyMessage (msg_of_bytes ?tampered)" if "length st + 2 \<le> j" and "j \<le> 12"
  proof -
    define m where "m = j - (length st + 2)"
    from that len lenP have j: "j = Suc (Suc (length P + m))" and m: "m < length Z"
      by (simp_all add: m_def)
    have iS: "Suc (length P + m) < length S" using m by (simp add: S_def)
    have upd: "S[Suc (length P + m) := v] = P @ 0 # Z[m := v]" for v
      by (simp add: S_def list_update_append)
    have len': "length P + length (Z[m := v]) = 11" for v using len by simp
    show ?thesis
      unfolding j pData block_state [OF iS] upd
      unfolding verifyMessage_terminated [OF nz len' lenT] ck_def ..
  qed
  show ?thesis
    unfolding Let_def pData_def [symmetric]
    using cam bid status sum name terminator stamp padding by blast
qed

lemma program_message_bytes:
  "msg_bytes (buildTallyMessage 0x01020304 True 3 ''PROGRAM'') =
     [3, 80, 82, 79, 71, 82, 65, 77, 0, 0, 0, 0, 0, 4, 3, 2, 1, 1, 1, 87]"
proof -
  have valid: "length ''PROGRAM'' \<le> 11" "CHR 0x00 \<notin> set ''PROGRAM''"
    by simp_all
  have "replicate 4 (0 :: 8 word) = [0, 0, 0, 0]" by (simp add: numeral_eq_Suc)
  then show ?thesis
    by (simp add: msg_bytes_buildTallyMessage [OF valid] le32_def drop_bit_eq_div)
qed

theorem single_bit_flip_detection_witness:
  "length ''PROGRAM'' \<le> 11 \<and> CHR 0x00 \<notin> set ''PROGRAM'' \<and> (0 :: nat) < 8
   \<and> msg_bytes (buildTallyMessage 0x01020304 True 3 ''PROGRAM'') =
       [3, 80, 82, 79, 71, 82, 65, 77, 0, 0, 0, 0, 0, 4, 3, 2, 1, 1, 1, 87]
   \<and> \<not> verifyMessage (msg_of_bytes
         [2, 80, 82, 79, 71, 82, 65, 77, 0, 0, 0, 0, 0, 4, 3, 2, 1, 1, 1, 87])
   \<and> \<not> verifyMessage (msg_of_bytes
         [3, 81, 82, 79, 71, 82, 65, 77, 0, 0, 0, 0, 0, 4, 3, 2, 1, 1, 1, 87])
   \<and> verifyMessage (msg_of_bytes
         [3, 80, 82, 79, 71, 82, 65, 77, 0, 0, 0, 0, 0, 4, 3, 2, 1, 1, 1, 87])"
proof -
  have valid: "length ''PROGRAM'' \<le> 11" "CHR 0x00 \<notin> set ''PROGRAM''" "(0 :: nat) < 8"
    by simp_all
  have flips: "flip_bit 0 (3 :: 8 word) = 2" "flip_bit 0 (80 :: 8 word) = 81"
    by (simp_all add: flip_bit_eq_xor)
  from single_bit_flip_detection [OF valid, where j = 0 and now = "0x01020304"
      and atemConnected = True and c = 3]
  have first: "\<not> verifyMessage (msg_of_bytes
         [2, 80, 82, 79, 71, 82, 65, 77, 0, 0, 0, 0, 0, 4, 3, 2, 1, 1, 1, 87])"
    by (simp add: Let_def program_message_bytes flips)
  from single_bit_flip_detection [OF valid, where j = 1 and now = "0x01020304"
      and atemConnected = True and c = 3]
  have second: "\<not> verifyMessage (msg_of_bytes
         [3, 81, 82, 79, 71, 82, 65, 77, 0, 0, 0, 0, 0, 4, 3, 2, 1, 1, 1, 87])"
    by (simp add: Let_def program_message_bytes flips)
  have "length [80, 82, 79, 71, 82, 65, 77, 0, 0, 0, 0, 0 :: 8 word] = 12"
    and "length [4, 3, 2, 1 :: 8 word] = 4" by simp_all
  from verifyMessage_block [OF this, of 3 1 1 87]
  have intact: "verifyMessage (msg_of_bytes
         [3, 80, 82, 79, 71, 82, 65, 77, 0, 0, 0, 0, 0, 4, 3, 2, 1, 1, 1, 87])"
    by simp
  from valid program_message_bytes first second intact show ?thesis by blast
qed

text \<open>
  C6, as stated, fails: flipping the lowest bit of the first timestamp byte (byte 13, from
  4 to 5) of a valid message leaves a block that \<^verbatim>\<open>verifyMessage\<close> accepts.
\<close>

theorem timestamp_flip_accepted:
  "msg_bytes (buildTallyMessage 0x01020304 True 3 ''PROGRAM'') =
       [3, 80, 82, 79, 71, 82, 65, 77, 0, 0, 0, 0, 0, 4, 3, 2, 1, 1, 1, 87]
   \<and> [3, 80, 82, 79, 71, 82, 65, 77, 0, 0, 0, 0, 0, 4, 3, 2, 1, 1, 1, 87 :: 8 word]
        [13 := flip_bit 0 4] =
       [3, 80, 82, 79, 71, 82, 65, 77, 0, 0, 0, 0, 0, 5, 3, 2, 1, 1, 1, 87]
   \<and> verifyMessage (msg_of_bytes
         [3, 80, 82, 79, 71, 82, 65, 77, 0, 0, 0, 0, 0, 5, 3, 2, 1, 1, 1, 87])"
proof -
  have "length [80, 82, 79, 71, 82, 65, 77, 0, 0, 0, 0, 0 :: 8 word] = 12"
    and "length [5, 3, 2, 1 :: 8 word] = 4" by simp_all
  from verifyMessage_block [OF this, of 3 1 1 87]
  have accepted: "verifyMessage (msg_of_bytes
         [3, 80, 82, 79, 71, 82, 65, 77, 0, 0, 0, 0, 0, 5, 3, 2, 1, 1, 1, 87])"
    by simp
  have "flip_bit 0 (4 :: 8 word) = 5" by (simp add: flip_bit_eq_xor)
  then have "[3, 80, 82, 79, 71, 82, 65, 77, 0, 0, 0, 0, 0, 4, 3, 2, 1, 1, 1, 87 :: 8 word]
        [13 := flip_bit 0 4] =
       [3, 80, 82, 79, 71, 82, 65, 77, 0, 0, 0, 0, 0, 5, 3, 2, 1, 1, 1, 87]"
    by simp
  with program_message_bytes accepted show ?thesis by blast
qed

subsection \<open>Heartbeat and message timeouts of the light\<close>

lemma setLEDColor_connection:
  "currentState (setLEDColor r g b s) = currentState s"
  "Light.connected (setLEDColor r g b s) = Light.connected s"
  "Light.registered (setLEDColor r g b s) = Light.registered s"
  "doScan (setLEDColor r g b s) = doScan s"
  "doConnect (setLEDColor r g b s) = doConnect s"
  "lastMessageReceived (setLEDColor r g b s) = lastMessageReceived s"
  "lastHeartbeatReceived (setLEDColor r g b s) = lastHeartbeatReceived s"
  by (simp_all add: setLEDColor_def)

lemma updateTallyLED_connection:
  "currentState (updateTallyLED now s) = currentState s"
  "Light.connected (updateTallyLED now s) = Light.connected s"
  "Light.registered (updateTallyLED now s) = Light.registered s"
  "doScan (updateTallyLED now s) = doScan s"
  "doConnect (updateTallyLED now s) = doConnect s"
  "lastMessageReceived (updateTallyLED now s) = lastMessageReceived s"
  "lastHeartbeatReceived (updateTallyLED now s) = lastHeartbeatReceived s"
  by (simp_all add: updateTallyLED_def setLEDOff_def setLEDColor_connection Let_def)

lemma handleHeartbeatLED_connection:
  "currentState (handleHeartbeatLED now s) = currentState s"
  "Light.connected (handleHeartbeatLED now s) = Light.connected s"
  "Light.registered (handleHeartbeatLED now s) = Light.registered s"
  "doScan (handleHeartbeatLED now s) = doScan s"
  "doConnect (handleHeartbeatLED now s) = doConnect s"
  "lastMessageReceived (handleHeartbeatLED now s) = lastMessageReceived s"
  "lastHeartbeatReceived (handleHeartbeatLED now s) = lastHeartbeatReceived s"
  by (simp_all add: handleHeartbeatLED_def updateTallyLED_connection)

lemma handleConnection_registered:
  assumes "Light.connected s" and "Light.registered s"
  shows "handleConnection now s =
           (if now - lastMessageReceived s > MESSAGE_TIMEOUT then ([Disconnect], s, now)
            else ([], s, now))"
  using assms by (simp add: handleConnection_def)

lemma onDisconnect_state:
  "currentState (MyClientCallback_onDisconnect now s) = STATE_DISCONNECTED"
  "\<not> Light.connected (MyClientCallback_onDisconnect now s)"
  "\<not> Light.registered (MyClientCallback_onDisconnect now s)"
  "doScan (MyClientCallback_onDisconnect now s)"
  "lastMessageReceived (MyClientCallback_onDisconnect now s) = lastMessageReceived s"
  by (simp_all add: MyClientCallback_onDisconnect_def Let_def updateTallyLED_connection)

lemma handleConnection_after_onDisconnect:
  "handleConnection later (MyClientCallback_onDisconnect now s) =
     ([], MyClientCallback_onDisconnect now s, later)"
  by (simp add: handleConnection_def onDisconnect_state)

lemma updateTallyLED_lost:
  assumes "currentState s = STATE_REGISTERED"
    and "now - lastHeartbeatReceived s > HEARTBEAT_TIMEOUT"
  shows "updateTallyLED now s =
           (if now - lostLastBlink s > 500
            then s\<lparr>lostBlinkState := \<not> lostBlinkState s, lostLastBlink := now,
                   led := (if lostBlinkState s then (0, 0, 0) else (128, 0, 128))\<rparr>
            else s)"
  using assms
  by (simp add: updateTallyLED_def setLEDOff_def setLEDColor_def LED_BRIGHTNESS_def Let_def)

lemma handleHeartbeatLED_lost:
  assumes "currentState s = STATE_REGISTERED"
    and "now - lastHeartbeatReceived s > HEARTBEAT_TIMEOUT"
  shows "handleHeartbeatLED now (updateTallyLED now s) =
           (if currentTallyState s = ''OFF'' \<and> bridgeHasATEM s
               \<and> now - lastHeartbeatLed s > HEARTBEAT_LED_INTERVAL
            then (updateTallyLED now s)
                   \<lparr>heartbeatLedState := \<not> heartbeatLedState s, lastHeartbeatLed := now\<rparr>
            else updateTallyLED now s)"
proof -
  define s1 where "s1 = updateTallyLED now s"
  define s2 where "s2 = s1\<lparr>heartbeatLedState := \<not> heartbeatLedState s1, lastHeartbeatLed := now\<rparr>"
  have s1: "s1 = (if now - lostLastBlink s > 500
            then s\<lparr>lostBlinkState := \<not> lostBlinkState s, lostLastBlink := now,
                   led := (if lostBlinkState s then (0, 0, 0) else (128, 0, 128))\<rparr>
            else s)"
    unfolding s1_def by (rule updateTallyLED_lost [OF assms])
  have same: "currentTallyState s1 = currentTallyState s" "bridgeHasATEM s1 = bridgeHasATEM s"
    "lastHeartbeatLed s1 = lastHeartbeatLed s" "heartbeatLedState s1 = heartbeatLedState s"
    "currentState s1 = STATE_REGISTERED" "lastHeartbeatReceived s1 = lastHeartbeatReceived s"
    using assms(1) by (simp_all add: s1)
  have settled: "\<not> now - lostLastBlink s1 > 500"
    by (simp add: s1)
  have reg2: "currentState s2 = STATE_REGISTERED"
    and hb2: "now - lastHeartbeatReceived s2 > HEARTBEAT_TIMEOUT"
    and settled2: "\<not> now - lostLastBlink s2 > 500"
    using same assms(2) settled by (simp_all add: s2_def)
  have "updateTallyLED now s2 = s2"
    using updateTallyLED_lost [OF reg2 hb2] settled2 by simp
  then show ?thesis
    unfolding s1_def [symmetric]
    by (simp add: handleHeartbeatLED_def same s2_def)
qed

lemma loop_registered:
  assumes "Light.connected s" and "Light.registered s" and "\<not> doConnect s" and "\<not> doScan s"
  shows "loop now s =
           Some (if now - lastMessageReceived s > MESSAGE_TIMEOUT then [Disconnect] else [],
                 handleHeartbeatLED now (updateTallyLED now s))"
  using assms by (simp add: loop_def handleConnection_registered)

text \<open>
  C3, amended: take a light that is connected and registered, in state
  \<^verbatim>\<open>STATE_REGISTERED\<close>, with no connect or scan pending. A heartbeat older than
  \<^verbatim>\<open>HEARTBEAT_TIMEOUT\<close> changes the indicator only: \<^verbatim>\<open>updateTallyLED\<close> toggles the
  connection-lost blink (magenta, or off) every 500 ms and \<^verbatim>\<open>handleHeartbeatLED\<close> at
  most toggles its own flag; the state stays \<^verbatim>\<open>STATE_REGISTERED\<close>. What the pass asks
  of the BLE client depends on the age of the last message: nothing up to
  \<^verbatim>\<open>MESSAGE_TIMEOUT\<close>, a disconnect beyond it, and \<^verbatim>\<open>handleConnection\<close> changes nothing
  else. The pass leaves the light connected, registered and with the same time stamps, so
  the next pass asks for the disconnect again: the request is repeated until the client's
  disconnect callback runs. The callback is where the state becomes
  \<^verbatim>\<open>STATE_DISCONNECTED\<close>; after it \<^verbatim>\<open>handleConnection\<close> asks nothing more and changes
  nothing, although the last message is as old as before.
\<close>

theorem heartbeat_timeout_and_teardown:
  assumes "currentState s = STATE_REGISTERED" and "Light.connected s" and "Light.registered s"
    and "\<not> doConnect s" and "\<not> doScan s"
  shows "(now - lastHeartbeatReceived s > HEARTBEAT_TIMEOUT \<longrightarrow>
            updateTallyLED now s =
              (if now - lostLastBlink s > 500
               then s\<lparr>lostBlinkState := \<not> lostBlinkState s, lostLastBlink := now,
                      led := (if lostBlinkState s then (0, 0, 0) else (128, 0, 128))\<rparr>
               else s)
          \<and> handleHeartbeatLED now (updateTallyLED now s) =
              (if currentTallyState s = ''OFF'' \<and> bridgeHasATEM s
                  \<and> now - lastHeartbeatLed s > HEARTBEAT_LED_INTERVAL
               then (updateTallyLED now s)
                      \<lparr>heartbeatLedState := \<not> heartbeatLedState s, lastHeartbeatLed := now\<rparr>
               else updateTallyLED now s))
       \<and> (now - lastMessageReceived s \<le> MESSAGE_TIMEOUT \<longrightarrow>
            handleConnection now s = ([], s, now)
          \<and> loop now s = Some ([], handleHeartbeatLED now (updateTallyLED now s)))
       \<and> (now - lastMessageReceived s > MESSAGE_TIMEOUT \<longrightarrow>
            handleConnection now s = ([Disconnect], s, now)
          \<and> loop now s = Some ([Disconnect], handleHeartbeatLED now (updateTallyLED now s)))
       \<and> currentState (handleHeartbeatLED now (updateTallyLED now s)) = STATE_REGISTERED
       \<and> Light.connected (handleHeartbeatLED now (updateTallyLED now s))
       \<and> Light.registered (handleHeartbeatLED now (updateTallyLED now s))
       \<and> lastMessageReceived (handleHeartbeatLED now (updateTallyLED now s)) = lastMessageReceived s
       \<and> lastHeartbeatReceived (handleHeartbeatLED now (updateTallyLED now s))
           = lastHeartbeatReceived s
       \<and> (later - lastMessageReceived s > MESSAGE_TIMEOUT \<longrightarrow>
            loop later (handleHeartbeatLED now (updateTallyLED now s)) =
              Some ([Disconnect],
                    handleHeartbeatLED later
                      (updateTallyLED later (handleHeartbeatLED now (updateTallyLED now s)))))
       \<and> currentState (MyClientCallback_onDisconnect now s) = STATE_DISCONNECTED
       \<and> \<not> Light.connected (MyClientCallback_onDisconnect now s)
       \<and> \<not> Light.registered (MyClientCallback_onDisconnect now s)
       \<and> lastMessageReceived (MyClientCallback_onDisconnect now s) = lastMessageReceived s
       \<and> handleConnection later (MyClientCallback_onDisconnect now s) =
           ([], MyClientCallback_onDisconnect now s, later)"
proof -
  let ?s' = "handleHeartbeatLED now (updateTallyLED now s)"
  have kept: "currentState ?s' = STATE_REGISTERED" "Light.connected ?s'" "Light.registered ?s'"
    "\<not> doConnect ?s'" "\<not> doScan ?s'" "lastMessageReceived ?s' = lastMessageReceived s"
    "lastHeartbeatReceived ?s' = lastHeartbeatReceived s"
    using assms by (simp_all add: handleHeartbeatLED_connection updateTallyLED_connection)
  have indicator: "updateTallyLED now s =
              (if now - lostLastBlink s > 500
               then s\<lparr>lostBlinkState := \<not> lostBlinkState s, lostLastBlink := now,
                      led := (if lostBlinkState s then (0, 0, 0) else (128, 0, 128))\<rparr>
               else s)
          \<and> handleHeartbeatLED now (updateTallyLED now s) =
              (if currentTallyState s = ''OFF'' \<and> bridgeHasATEM s
                  \<and> now - lastHeartbeatLed s > HEARTBEAT_LED_INTERVAL
               then (updateTallyLED now s)
                      \<lparr>heartbeatLedState := \<not> heartbeatLedState s, lastHeartbeatLed := now\<rparr>
               else updateTallyLED now s)"
    if "now - lastHeartbeatReceived s > HEARTBEAT_TIMEOUT"
    using updateTallyLED_lost [OF assms(1) that] handleHeartbeatLED_lost [OF assms(1) that]
    by (rule conjI)
  have quiet: "handleConnection now s = ([], s, now) \<and> loop now s = Some ([], ?s')"
    if "now - lastMessageReceived s \<le> MESSAGE_TIMEOUT"
    using that
    by (simp add: handleConnection_registered [OF assms(2,3)] loop_registered [OF assms(2-5)]
        not_less [symmetric])
  have teardown: "handleConnection now s = ([Disconnect], s, now)
          \<and> loop now s = Some ([Disconnect], ?s')"
    if "now - lastMessageReceived s > MESSAGE_TIMEOUT"
    using that
    by (simp add: handleConnection_registered [OF assms(2,3)] loop_registered [OF assms(2-5)])
  have again: "loop later ?s' =
              Some ([Disconnect], handleHeartbeatLED later (updateTallyLED later ?s'))"
    if "later - lastMessageReceived s > MESSAGE_TIMEOUT"
    using that by (simp add: loop_registered [OF kept(2-5)] kept(6))
  note callback = onDisconnect_state(1-3,5) [of now s]
    handleConnection_after_onDisconnect [of later now s]
  from indicator quiet teardown again kept(1-3,6,7) callback
  show ?thesis by blast
qed

theorem heartbeat_timeout_and_teardown_witness:
  "currentState registered_light = STATE_REGISTERED
   \<and> (20000 :: 32 word) - lastHeartbeatReceived registered_light > HEARTBEAT_TIMEOUT
   \<and> (20000 :: 32 word) - lastMessageReceived registered_light \<le> MESSAGE_TIMEOUT
   \<and> updateTallyLED 20000 registered_light =
       registered_light\<lparr>lostBlinkState := True, lostLastBlink := 20000, led := (128, 0, 128)\<rparr>
   \<and> loop 20000 registered_light =
       Some ([], registered_light
                   \<lparr>lostBlinkState := True, lostLastBlink := 20000, led := (128, 0, 128),
                    heartbeatLedState := True, lastHeartbeatLed := 20000\<rparr>)
   \<and> (70000 :: 32 word) - lastMessageReceived registered_light > MESSAGE_TIMEOUT
   \<and> handleConnection 70000 registered_light = ([Disconnect], registered_light, 70000)
   \<and> map_option fst (loop 70000 registered_light) = Some [Disconnect]
   \<and> map_option fst
        (loop 70050 (handleHeartbeatLED 70000 (updateTallyLED 70000 registered_light)))
       = Some [Disconnect]
   \<and> currentState (MyClientCallback_onDisconnect 70000 registered_light) = STATE_DISCONNECTED
   \<and> handleConnection 70050 (MyClientCallback_onDisconnect 70000 registered_light) =
       ([], MyClientCallback_onDisconnect 70000 registered_light, 70050)"
proof -
  have hyps: "currentState registered_light = STATE_REGISTERED"
    "Light.connected registered_light" "Light.registered registered_light"
    "\<not> doConnect registered_light" "\<not> doScan registered_light"
    by (simp_all add: registered_light_def)
  have early: "(20000 :: 32 word) - lastHeartbeatReceived registered_light > HEARTBEAT_TIMEOUT"
    "(20000 :: 32 word) - lastMessageReceived registered_light \<le> MESSAGE_TIMEOUT"
    and late: "(70000 :: 32 word) - lastMessageReceived registered_light > MESSAGE_TIMEOUT"
    "(70050 :: 32 word) - lastMessageReceived registered_light > MESSAGE_TIMEOUT"
    by (simp_all add: registered_light_def HEARTBEAT_TIMEOUT_def MESSAGE_TIMEOUT_def)
  have fields: "\<not> lostBlinkState registered_light" "lostLastBlink registered_light = 0"
    "currentTallyState registered_light = ''OFF''" "bridgeHasATEM registered_light"
    "lastHeartbeatLed registered_light = 0" "\<not> heartbeatLedState registered_light"
    by (simp_all add: registered_light_def)
  note at_20 = heartbeat_timeout_and_teardown [OF hyps, where now = 20000 and later = 20000]
  from at_20 early(1)
  have blink: "updateTallyLED 20000 registered_light =
              (if (20000 :: 32 word) - lostLastBlink registered_light > 500
               then registered_light
                      \<lparr>lostBlinkState := \<not> lostBlinkState registered_light,
                       lostLastBlink := 20000,
                       led := (if lostBlinkState registered_light then (0, 0, 0)
                               else (128, 0, 128))\<rparr>
               else registered_light)"
    and pulse: "handleHeartbeatLED 20000 (updateTallyLED 20000 registered_light) =
              (if currentTallyState registered_light = ''OFF'' \<and> bridgeHasATEM registered_light
                  \<and> (20000 :: 32 word) - lastHeartbeatLed registered_light
                      > HEARTBEAT_LED_INTERVAL
               then (updateTallyLED 20000 registered_light)
                      \<lparr>heartbeatLedState := \<not> heartbeatLedState registered_light,
                       lastHeartbeatLed := 20000\<rparr>
               else updateTallyLED 20000 registered_light)"
    by blast+
  from at_20 early(2)
  have idle: "loop 20000 registered_light =
      Some ([], handleHeartbeatLED 20000 (updateTallyLED 20000 registered_light))"
    by blast
  from blink have shown: "updateTallyLED 20000 registered_light =
       registered_light\<lparr>lostBlinkState := True, lostLastBlink := 20000, led := (128, 0, 128)\<rparr>"
    by (simp add: fields)
  from pulse have "handleHeartbeatLED 20000 (updateTallyLED 20000 registered_light) =
       (updateTallyLED 20000 registered_light)
         \<lparr>heartbeatLedState := True, lastHeartbeatLed := 20000\<rparr>"
    by (simp add: fields HEARTBEAT_LED_INTERVAL_def)
  with idle have pass: "loop 20000 registered_light =
       Some ([], registered_light
                   \<lparr>lostBlinkState := True, lostLastBlink := 20000, led := (128, 0, 128),
                    heartbeatLedState := True, lastHeartbeatLed := 20000\<rparr>)"
    by (simp add: shown)
  note at_70 = heartbeat_timeout_and_teardown [OF hyps, where now = 70000 and later = 70050]
  from at_70 late
  have teardown: "handleConnection 70000 registered_light = ([Disconnect], registered_light, 70000)"
    and first': "loop 70000 registered_light =
       Some ([Disconnect], handleHeartbeatLED 70000 (updateTallyLED 70000 registered_light))"
    and second': "loop 70050 (handleHeartbeatLED 70000 (updateTallyLED 70000 registered_light)) =
       Some ([Disconnect],
             handleHeartbeatLED 70050
               (updateTallyLED 70050
                  (handleHeartbeatLED 70000 (updateTallyLED 70000 registered_light))))"
    and down: "currentState (MyClientCallback_onDisconnect 70000 registered_light)
                 = STATE_DISCONNECTED"
    and once: "handleConnection 70050 (MyClientCallback_onDisconnect 70000 registered_light) =
       ([], MyClientCallback_onDisconnect 70000 registered_light, 70050)"
    by blast+
  from first' have first: "map_option fst (loop 70000 registered_light) = Some [Disconnect]"
    by simp
  from second' have second: "map_option fst
        (loop 70050 (handleHeartbeatLED 70000 (updateTallyLED 70000 registered_light)))
       = Some [Disconnect]"
    by simp
  from hyps(1) early late(1) shown pass teardown first second down once
  show ?thesis by blast
qed

text \<open>
  C3, as stated, fails twice. 20 seconds after the last heartbeat, which is more than
  \<^verbatim>\<open>HEARTBEAT_TIMEOUT\<close>, a pass of the loop leaves the light connected and in
  \<^verbatim>\<open>STATE_REGISTERED\<close> and asks for no disconnect. 70 seconds after the last message
  the pass asks for the disconnect, and so does the next pass 50 ms later: the light is
  still in \<^verbatim>\<open>STATE_REGISTERED\<close> and the request is not made once only.
\<close>

theorem heartbeat_timeout_keeps_registered:
  "currentState registered_light = STATE_REGISTERED
   \<and> (20000 :: 32 word) - lastHeartbeatReceived registered_light > HEARTBEAT_TIMEOUT
   \<and> loop 20000 registered_light =
       Some ([], handleHeartbeatLED 20000 (updateTallyLED 20000 registered_light))
   \<and> currentState (handleHeartbeatLED 20000 (updateTallyLED 20000 registered_light))
       = STATE_REGISTERED
   \<and> Light.connected (handleHeartbeatLED 20000 (updateTallyLED 20000 registered_light))
   \<and> (70000 :: 32 word) - lastHeartbeatReceived registered_light > HEARTBEAT_TIMEOUT
   \<and> loop 70000 registered_light =
       Some ([Disconnect], handleHeartbeatLED 70000 (updateTallyLED 70000 registered_light))
   \<and> currentState (handleHeartbeatLED 70000 (updateTallyLED 70000 registered_light))
       = STATE_REGISTERED
   \<and> loop 70050 (handleHeartbeatLED 70000 (updateTallyLED 70000 registered_light)) =
       Some ([Disconnect],
             handleHeartbeatLED 70050
               (updateTallyLED 70050
                  (handleHeartbeatLED 70000 (updateTallyLED 70000 registered_light))))"
proof -
  define s1 where "s1 = handleHeartbeatLED 70000 (updateTallyLED 70000 registered_light)"
  have reg: "Light.connected registered_light" "Light.registered registered_light"
    "\<not> doConnect registered_light" "\<not> doScan registered_light"
    and state: "currentState registered_light = STATE_REGISTERED"
    and stamp: "lastMessageReceived registered_light = 0"
    and beat: "lastHeartbeatReceived registered_light = 0"
    by (simp_all add: registered_light_def)
  have reg1: "Light.connected s1" "Light.registered s1" "\<not> doConnect s1" "\<not> doScan s1"
    and state1: "currentState s1 = STATE_REGISTERED"
    and stamp1: "lastMessageReceived s1 = 0"
    using reg state stamp
    by (simp_all add: s1_def handleHeartbeatLED_connection updateTallyLED_connection)
  have early: "loop 20000 registered_light =
       Some ([], handleHeartbeatLED 20000 (updateTallyLED 20000 registered_light))"
    by (simp add: loop_registered [OF reg] stamp MESSAGE_TIMEOUT_def)
  have first: "loop 70000 registered_light = Some ([Disconnect], s1)"
    by (simp add: loop_registered [OF reg] stamp MESSAGE_TIMEOUT_def s1_def)
  have second: "loop 70050 s1 =
       Some ([Disconnect], handleHeartbeatLED 70050 (updateTallyLED 70050 s1))"
    by (simp add: loop_registered [OF reg1] stamp1 MESSAGE_TIMEOUT_def)
  have still: "currentState (handleHeartbeatLED 20000 (updateTallyLED 20000 registered_light))
       = STATE_REGISTERED"
    "Light.connected (handleHeartbeatLED 20000 (updateTallyLED 20000 registered_light))"
    using reg state by (simp_all add: handleHeartbeatLED_connection updateTallyLED_connection)
  have aged: "(20000 :: 32 word) - lastHeartbeatReceived registered_light > HEARTBEAT_TIMEOUT"
    "(70000 :: 32 word) - lastHeartbeatReceived registered_light > HEARTBEAT_TIMEOUT"
    by (simp_all add: beat HEARTBEAT_TIMEOUT_def)
  from state aged early still first state1 second show ?thesis
    unfolding s1_def by blast
qed

subsection \<open>Messages at the light\<close>

text \<open>
  A valid message for camera 0 (a heartbeat) or for the light's own camera sets both
  \<^verbatim>\<open>lastHeartbeatReceived\<close> and \<^verbatim>\<open>lastMessageReceived\<close>; a message for another camera
  sets neither. A state sent by the bridge for the light's camera becomes its
  \<^verbatim>\<open>currentTallyState\<close>.
\<close>

lemma flashLED_connection:
  "currentState (flashLED r g b duration now s) = currentState s"
  "lastMessageReceived (flashLED r g b duration now s) = lastMessageReceived s"
  "lastHeartbeatReceived (flashLED r g b duration now s) = lastHeartbeatReceived s"
  by (simp_all add: flashLED_def updateTallyLED_connection setLEDColor_connection)

lemma processTallyMessage_refreshes_both:
  assumes "verifyMessage msg"
    and "TallyMessage.cameraId msg = 0 \<or> unat (TallyMessage.cameraId msg) = CAMERA_ID"
  shows "lastHeartbeatReceived (processTallyMessage now msg s) = now"
    and "lastMessageReceived (processTallyMessage now msg s) = now"
    and "currentState (processTallyMessage now msg s) = currentState s"
  using assms
  by (auto simp add: processTallyMessage_def Let_def updateTallyLED_connection flashLED_connection)

lemma processTallyMessage_other_camera:
  assumes "TallyMessage.cameraId msg \<noteq> 0" and "unat (TallyMessage.cameraId msg) \<noteq> CAMERA_ID"
  shows "lastHeartbeatReceived (processTallyMessage now msg s) = lastHeartbeatReceived s"
    and "lastMessageReceived (processTallyMessage now msg s) = lastMessageReceived s"
    and "currentState (processTallyMessage now msg s) = currentState s"
  using assms
  by (auto simp add: processTallyMessage_def Let_def updateTallyLED_connection flashLED_connection)

lemma updateTallyLED_currentTallyState:
  "currentTallyState (updateTallyLED now s) = currentTallyState s"
  by (simp add: updateTallyLED_def setLEDOff_def setLEDColor_def Let_def)

lemma flashLED_currentTallyState:
  "currentTallyState (flashLED r g b duration now s) = currentTallyState s"
  by (simp add: flashLED_def updateTallyLED_currentTallyState setLEDColor_def)

lemma buildTallyMessage_accepted:
  assumes "length st \<le> 11" and "CHR 0x00 \<notin> set st"
  shows "verifyMessage (buildTallyMessage sent atem c st)"
    and "String_of_state (buildTallyMessage sent atem c st) = st"
    and "TallyMessage.cameraId (buildTallyMessage sent atem c st) = c"
    and "length (state (buildTallyMessage sent atem c st)) = 12"
proof -
  have nz: "\<forall>b \<in> set (map of_char st). b \<noteq> (0 :: 8 word)"
    by (rule state_bytes_nonzero [OF assms(2)])
  note msg = buildTallyMessage_valid [OF assms, of sent atem c]
  have str: "c_str_state (buildTallyMessage sent atem c st) = map of_char st"
    and str0: "c_str_state ((buildTallyMessage sent atem c st)\<lparr>checksum := 0\<rparr>) = map of_char st"
    using takeWhile_terminated [OF nz]
    by (simp_all add: c_str_state_def msg_bytes_def msg)
  show "verifyMessage (buildTallyMessage sent atem c st)"
    by (simp add: verifyMessage_def calculateChecksum_def str0) (simp add: msg)
  show "String_of_state (buildTallyMessage sent atem c st) = st"
    by (simp add: String_of_state_def str comp_def char_of_unat_of_char)
  show "TallyMessage.cameraId (buildTallyMessage sent atem c st) = c"
    by (simp add: msg)
  show "length (state (buildTallyMessage sent atem c st)) = 12"
    using assms(1) by (simp add: msg)
qed

lemma notifyCallback_applies_state:
  assumes "length st \<le> 11" and "CHR 0x00 \<notin> set st"
  shows "currentTallyState
           (notifyCallback now (msg_bytes (buildTallyMessage sent atem (of_nat CAMERA_ID) st)) s) = st"
proof -
  define msg where "msg = buildTallyMessage sent atem (of_nat CAMERA_ID) st"
  note ok = buildTallyMessage_accepted [OF assms, of sent atem "of_nat CAMERA_ID", folded msg_def]
  have size: "length (msg_bytes msg) = sizeof_TallyMessage"
    using ok(4) by (simp add: msg_bytes_def length_le32 sizeof_TallyMessage_def)
  have decoded: "msg_of_bytes (msg_bytes msg) = msg"
    by (rule msg_of_bytes_msg_bytes [OF ok(4)])
  have own: "TallyMessage.cameraId msg \<noteq> 0" "unat (TallyMessage.cameraId msg) = CAMERA_ID"
    by (simp_all add: ok(3) CAMERA_ID_def)
  have "currentTallyState (processTallyMessage now msg s) = st"
    using ok(1,2) own
    by (simp add: processTallyMessage_def Let_def updateTallyLED_currentTallyState
        flashLED_currentTallyState)
  then show ?thesis
    unfolding msg_def [symmetric] by (simp add: notifyCallback_def size decoded)
qed

end
